theory Spec2Isabelle
  imports Complex_Main
begin

section \<open>Shared vocabulary\<close>

text \<open>
  Go errors are values. An \<open>error\<close> is either an error produced by a library, or one
  wrapped by \<open>errors.Wrapf\<close> (github.com/pkg/errors), which keeps the cause. A nil
  error is \<open>None\<close> of \<open>error option\<close>.

  A call into code that may panic has an \<open>outcome\<close>: it returns a value, or it
  panics with a message.
\<close>

datatype error = Error string | Wrapf error string

datatype 'a outcome = Panic string | Ret 'a

section \<open>The ClickHouse container (src/clickhouse/clickhouse.go)\<close>

text \<open>
  The package's \<open>ConnectionConfig\<close> is declared in a file that is not part of the
  sources; the record has the fields \<open>Connect\<close> reads, and \<open>dsn\<close> stands for the result of the
  method \<open>GetConnectionDSN\<close>. Durations are nanoseconds.
\<close>

record ClickhouseConnectionConfig =
  dsn :: string
  MaxConnections :: int
  MaxIdleConnections :: int
  MaxConnectionIdleTime :: int
  MaxConnectionLifetime :: int

text \<open>
  A \<open>*sql.DB\<close> handle: the data source it was opened on and the pool settings, as
  \<open>database/sql\<close> of the Go standard library keeps them. A freshly opened handle has
  the zero settings. \<open>maxIdleCount\<close> is zero for the default of 2 idle connections and
  negative for none (\<open>maxIdleConnsLocked\<close>). The setters are the library's: a negative
  limit of open connections is stored as 0 (no limit), the idle connections are capped
  at the limit of open connections, and a negative duration is stored as 0.
\<close>

record sql_DB =
  db_dsn :: string
  maxOpen :: int
  maxIdleCount :: int
  maxIdleTime :: int
  maxLifetime :: int

definition sql_Open :: "string \<Rightarrow> sql_DB" where
  "sql_Open d =
     \<lparr>db_dsn = d, maxOpen = 0, maxIdleCount = 0, maxIdleTime = 0, maxLifetime = 0\<rparr>"

definition maxIdleConnsLocked :: "sql_DB \<Rightarrow> int" where
  "maxIdleConnsLocked db =
     (if maxIdleCount db = 0 then 2
      else if maxIdleCount db < 0 then 0
      else maxIdleCount db)"

definition SetMaxIdleConns :: "int \<Rightarrow> sql_DB \<Rightarrow> sql_DB" where
  "SetMaxIdleConns n db =
     (let db1 = db\<lparr>maxIdleCount := (if 0 < n then n else - 1)\<rparr>
      in if 0 < maxOpen db1 \<and> maxOpen db1 < maxIdleConnsLocked db1
         then db1\<lparr>maxIdleCount := maxOpen db1\<rparr>
         else db1)"

definition SetMaxOpenConns :: "int \<Rightarrow> sql_DB \<Rightarrow> sql_DB" where
  "SetMaxOpenConns n db =
     (let db1 = db\<lparr>maxOpen := (if n < 0 then 0 else n)\<rparr>
      in if 0 < maxOpen db1 \<and> maxOpen db1 < maxIdleConnsLocked db1
         then SetMaxIdleConns n db1
         else db1)"

definition SetConnMaxIdleTime :: "int \<Rightarrow> sql_DB \<Rightarrow> sql_DB" where
  "SetConnMaxIdleTime d db = db\<lparr>maxIdleTime := (if d < 0 then 0 else d)\<rparr>"

definition SetConnMaxLifetime :: "int \<Rightarrow> sql_DB \<Rightarrow> sql_DB" where
  "SetConnMaxLifetime d db = db\<lparr>maxLifetime := (if d < 0 then 0 else d)\<rparr>"

record StatsCollector =
  sc_name :: string
  sc_db :: sql_DB

definition NewStatsCollector :: "string \<Rightarrow> sql_DB \<Rightarrow> StatsCollector" where
  "NewStatsCollector name db = \<lparr>sc_name = name, sc_db = db\<rparr>"

text \<open>
  The container: three maps keyed by connection name. The mutex only orders accesses
  and carries no data, so it has no field.
\<close>

record Container =
  cont_cfg :: "string \<rightharpoonup> ClickhouseConnectionConfig"
  cont_conns :: "string \<rightharpoonup> sql_DB"
  cont_collectors :: "string \<rightharpoonup> StatsCollector"

definition NewContainer :: Container where
  "NewContainer = \<lparr>cont_cfg = Map.empty, cont_conns = Map.empty, cont_collectors = Map.empty\<rparr>"

definition Get_conn :: "Container \<Rightarrow> string \<Rightarrow> sql_DB option" where
  "Get_conn cont name = cont_conns cont name"

definition GetCollector :: "Container \<Rightarrow> string \<Rightarrow> StatsCollector option" where
  "GetCollector cont name = cont_collectors cont name"

text \<open>
  What \<open>Connect\<close> meets outside the container: whether the driver opens the data
  source, whether the ping succeeds, and whether the Prometheus registry accepts the new
  collector (\<open>prometheus.MustRegister\<close> panics when it does not).
\<close>

record connect_env =
  open_err :: "error option"
  ping_err :: "error option"
  register_err :: "error option"

datatype prom_action = Unregister StatsCollector | MustRegister StatsCollector

text \<open>
  \<open>Connect\<close> returns what the Go method returns (or its panic), the container as the
  method leaves it, and the calls it made on the Prometheus registry, in order.
\<close>

definition Connect ::
  "connect_env \<Rightarrow> Container \<Rightarrow> string \<Rightarrow> ClickhouseConnectionConfig
     \<Rightarrow> error option outcome \<times> Container \<times> prom_action list" where
  "Connect env cont name c =
     (case open_err env of
        Some e \<Rightarrow> (Ret (Some (Wrapf e ''sql.Open'')), cont, [])
      | None \<Rightarrow>
          (case ping_err env of
             Some e \<Rightarrow> (Ret (Some (Wrapf e ''conn.Ping'')), cont, [])
           | None \<Rightarrow>
               (let db = SetConnMaxLifetime (MaxConnectionLifetime c)
                          (SetConnMaxIdleTime (MaxConnectionIdleTime c)
                            (SetMaxIdleConns (MaxIdleConnections c)
                              (SetMaxOpenConns (MaxConnections c) (sql_Open (dsn c)))));
                    unreg = (case GetCollector cont name of
                               Some old \<Rightarrow> [Unregister old]
                             | None \<Rightarrow> []);
                    collector = NewStatsCollector name db
                in (case register_err env of
                      Some e \<Rightarrow> (Panic ''MustRegister'', cont, unreg @ [MustRegister collector])
                    | None \<Rightarrow>
                        (Ret None,
                         cont\<lparr>cont_conns := (cont_conns cont)(name \<mapsto> db),
                              cont_cfg := (cont_cfg cont)(name \<mapsto> c),
                              cont_collectors := (cont_collectors cont)(name \<mapsto> collector)\<rparr>,
                         unreg @ [MustRegister collector])))))"

section \<open>The RabbitMQ consumer: data (src/unnamed/part_000)\<close>

text \<open>
  Handles of the broker client are pointers in Go; here they are numbers, and a nil
  pointer is \<open>None\<close>. Clock readings and durations are nanoseconds.
\<close>

type_synonym conn = nat
type_synonym channel = nat
type_synonym stream = nat

definition second :: int where
  "second = 1000000000"

definition connCloseChanSize :: nat where
  "connCloseChanSize = 8096"

definition metricsIntervalCheckDefault :: int where
  "metricsIntervalCheckDefault = 3600 * second * 24 * 365"

definition heartbeatIntervalCheck :: int where
  "heartbeatIntervalCheck = second"

definition heartbeatReconnectionInterval :: int where
  "heartbeatReconnectionInterval = 5 * (60 * second)"

definition time_Since :: "int \<Rightarrow> int \<Rightarrow> int" where
  \<comment> \<open>\<open>time.Since(t)\<close>, read when the clock shows \<open>now\<close>\<close>
  "time_Since now t = now - t"

text \<open>
  The configuration types are declared in files that are not part of the sources; the
  records have the fields this file reads. A metrics callback is a Go function value:
  the record says whether it is non-nil, and what a call of it does is part of the
  environment of \<open>collectMetrics\<close>.
\<close>

record ConnectionConfig =
  Address :: string
  VHost :: string
  User :: string
  Password :: string

record ConsumerMetrics =
  QueueLength :: bool
  QueueDelay :: bool
  CheckInterval :: int

record ConsumerConfig =
  Queue :: string
  Tag :: string
  QueuePriority :: int
  PrefetchCount :: int
  Metrics :: "ConsumerMetrics option"

record delivery =
  DeliveryTag :: nat
  Body :: string

text \<open>
  A \<open>Message\<close> is the envelope handed to the application. Its \<open>callback\<close> is the
  closure built at line 95, once per generation: the field holds the number of the
  generation whose \<open>isNeedRecreateChannel\<close> cell the closure captured.
\<close>

record Message =
  msg :: delivery
  host :: string
  queue :: string
  callback :: nat

text \<open>
  The channels made for \<open>NotifyClose\<close>, one pair per generation.
\<close>

datatype notify = ChannelNotify nat | ConnNotify nat

text \<open>
  Everything the code does to the outside world is an \<open>action\<close>: a call on the
  connection pool, on the broker channel, on a metrics callback or on the logger, a
  sleep, a goroutine started, the wait group incremented, an envelope sent.
\<close>

datatype action =
    LogError string
  | Sleep int
  | Get_call ConnectionConfig string
  | CreateConsumerChannel_call "conn option" string string int int
  | CloseConnection "conn option"
  | CloseConsumerChannel "channel option"
  | NotifyClose_channel channel notify
  | NotifyClose_conn "conn option" notify
  | Go_readAllErrors "notify option"
  | Go_collectMetrics "channel option" string string
  | Add int
  | Send Message
  | IsClosed_call channel
  | QueueDeclarePassive_call channel string
  | QueueLength_call string string int
  | QueueDelay_call string string int
  | Channel_Get_call channel string bool
  | Reject_call bool

section \<open>The metrics sampler: \<open>collectMetrics\<close>\<close>

text \<open>
  What one run of \<open>collectMetrics\<close> meets: the result of each call it may make. Any of
  them may panic. \<open>QueueDeclarePassive_res\<close> is the error or the field \<open>q.Messages\<close>;
  \<open>Get_res\<close> is the pair \<open>(ok, err)\<close> of \<open>channel.Get\<close>; \<open>Seconds_res\<close> is the
  \<open>float64\<close> that \<open>time.Since(msg.Timestamp).Seconds()\<close> evaluates to (every finite
  \<open>float64\<close> is a real number; the comparison with 0 and the conversion to \<open>int64\<close>
  are exact on it).
\<close>

record metrics_env =
  IsClosed_res :: "bool outcome"
  QueueDeclarePassive_res :: "(error + int) outcome"
  QueueLength_res :: "unit outcome"
  QueueDelay_res :: "unit outcome"
  Get_res :: "(bool \<times> error option) outcome"
  Seconds_res :: real
  Reject_res :: "error option outcome"

definition int64_of_float64 :: "real \<Rightarrow> int" where
  \<comment> \<open>Go's conversion \<open>int64(f)\<close> drops the fraction (for \<open>f\<close> in the range of \<open>int64\<close>)\<close>
  "int64_of_float64 f = (if 0 \<le> f then \<lfloor>f\<rfloor> else \<lceil>f\<rceil>)"

text \<open>
  A piece of a function body yields the actions done so far and the panic in flight, if
  any. \<open>call a r k\<close> does the call \<open>a\<close>, whose outcome is \<open>r\<close>: a panic stops the body
  there, a result is passed to the rest \<open>k\<close> of the body.
\<close>

type_synonym body = "action list \<times> string option"

definition call :: "action \<Rightarrow> 'a outcome \<Rightarrow> ('a \<Rightarrow> body) \<Rightarrow> body" where
  "call a r k =
     (case r of
        Panic p \<Rightarrow> ([a], Some p)
      | Ret x \<Rightarrow> (case k x of (as, res) \<Rightarrow> (a # as, res)))"

definition return :: body where
  "return = ([], None)"

text \<open>Lines 199 to 233: the body of \<open>collectMetrics\<close> under its deferred function.\<close>

definition collectMetrics_body ::
  "metrics_env \<Rightarrow> ConsumerConfig \<Rightarrow> channel option \<Rightarrow> string \<Rightarrow> string \<Rightarrow> body" where
  "collectMetrics_body env cc chn h q =
     (case chn of
        None \<Rightarrow> return
      | Some c \<Rightarrow>
          call (IsClosed_call c) (IsClosed_res env) (\<lambda>b.
            if b then return
            else (case Metrics cc of
                None \<Rightarrow> return
              | Some m \<Rightarrow>
                  call (QueueDeclarePassive_call c q) (QueueDeclarePassive_res env) (\<lambda>r.
                    case r of
                      Inl err \<Rightarrow> return
                    | Inr messages \<Rightarrow>
                        (if QueueLength m
                         then call (QueueLength_call h q messages) (QueueLength_res env)
                         else (\<lambda>k. k ()))
                        (\<lambda>_.
                           if \<not> QueueDelay m then return
                           else if messages = 0
                           then call (QueueDelay_call h q 0) (QueueDelay_res env) (\<lambda>_. return)
                           else call (Channel_Get_call c q False) (Get_res env) (\<lambda>(ok, err).
                                  if err = None \<and> ok
                                  then call (Reject_call True) (Reject_res env) (\<lambda>_.
                                         if 0 \<le> Seconds_res env
                                         then call (QueueDelay_call h q
                                                      (int64_of_float64 (Seconds_res env)))
                                                (QueueDelay_res env) (\<lambda>_. return)
                                         else return)
                                  else return))))))"

text \<open>
  Lines 191 to 197: the deferred function recovers a panic of the body and logs it. The
  second component of the result is the panic that leaves \<open>collectMetrics\<close>.
\<close>

definition collectMetrics ::
  "metrics_env \<Rightarrow> ConsumerConfig \<Rightarrow> channel option \<Rightarrow> string \<Rightarrow> string \<Rightarrow> body" where
  "collectMetrics env cc chn h q =
     (case collectMetrics_body env cc chn h q of
        (as, None) \<Rightarrow> (as, None)
      | (as, Some e) \<Rightarrow> (as @ [LogError ''unable to collect rabbit metrics''], None))"

definition delay_reports :: "action list \<Rightarrow> int list" where
  \<comment> \<open>the values the queue-delay callback was called with, in order\<close>
  "delay_reports as = concat (map (\<lambda>a. case a of QueueDelay_call h q v \<Rightarrow> [v] | _ \<Rightarrow> []) as)"

text \<open>
  A body is \<open>quiet\<close> when it has written nothing to the log.
\<close>

fun is_log :: "action \<Rightarrow> bool" where
  "is_log (LogError txt) = True"
| "is_log _ = False"

definition quiet :: "body \<Rightarrow> bool" where
  "quiet b \<longleftrightarrow> \<not> list_ex is_log (fst b)"

section \<open>The consumer engine: \<open>Consumer.start\<close>, \<open>Consumer.Close\<close> and the application\<close>

text \<open>
  What is fixed when the consumer is built. The constructor and \<open>getHostPort\<close> are in
  files that are not part of the sources: \<open>hostname\<close> is the first result of
  \<open>getHostPort(c.connCfg.Address)\<close>, and \<open>capacity\<close> is the capacity the constructor
  gave the channel \<open>c.ch\<close> (0 for an unbuffered channel).
\<close>

record params =
  connCfg :: ConnectionConfig
  cfg :: ConsumerConfig
  hostname :: string
  capacity :: nat

definition metricsInterval :: "ConsumerConfig \<Rightarrow> int" where
  \<comment> \<open>lines 42 to 45\<close>
  "metricsInterval cc =
     (case Metrics cc of
        Some m \<Rightarrow> if 0 < CheckInterval m then CheckInterval m else metricsIntervalCheckDefault
      | None \<Rightarrow> metricsIntervalCheckDefault)"

text \<open>
  Where the goroutine running \<open>start\<close> stands:
  \<^item> \<open>ReconnectLoop\<close>: line 57, about to test the condition of the outer loop;
  \<^item> \<open>CallGet\<close>: line 60, inside \<open>connectionsManager.Get\<close>;
  \<^item> \<open>CallCreate\<close>: line 71, inside \<open>connectionsManager.CreateConsumerChannel\<close>;
  \<^item> \<open>ServeLoop\<close>: line 105, about to test the condition of the inner loop;
  \<^item> \<open>Select\<close>: line 106, blocked in the \<open>select\<close>;
  \<^item> \<open>Sending m\<close>: line 153, blocked in the send of \<open>m\<close> on \<open>c.ch\<close>;
  \<^item> \<open>Wait\<close>: line 162, blocked in \<open>c.itemsInProgress.Wait()\<close>;
  \<^item> \<open>ReleaseChannel\<close>, \<open>CloseCh\<close>, \<open>CloseClosed\<close>: about to run line 163, 164, 165;
  \<^item> \<open>Returned\<close>: \<open>start\<close> has returned.
\<close>

datatype pc =
    ReconnectLoop
  | CallGet
  | CallCreate
  | ServeLoop
  | Select
  | Sending Message
  | Wait
  | ReleaseChannel
  | CloseCh
  | CloseClosed
  | Returned

text \<open>
  Where a caller of \<open>Close\<close> stands: not in a call, blocked at \<open>c.mu.Lock()\<close> (line
  173), holding the mutex and about to test \<open>c.isClosed\<close> (line 176), holding the mutex
  and blocked in the receive from \<open>c.closed\<close> (line 181), or back from the call with its
  result.
\<close>

datatype close_pc =
    NotCalled
  | AtLock
  | Locked
  | AwaitClosed
  | CloseReturned "error option"

text \<open>
  The state: the fields of the \<open>Consumer\<close> struct (the channel \<open>c.ch\<close> is its buffer and
  whether it was closed; the mutex is its holder; the wait group is its counter), the
  local variables of \<open>start\<close>, the envelopes the application has received and not yet
  completed (\<open>held\<close>), and the callers of \<open>Close\<close>. \<open>isNeedRecreateChannel\<close> is declared
  inside the outer loop, so every generation has a cell of its own and the callback of an
  envelope writes the cell of the generation that made the envelope: the field maps the
  number of a generation to its cell, and \<open>generation\<close> is the current one.
\<close>

record Consumer =
  ch :: "Message list"
  ch_closed :: bool
  mu :: "nat option"
  closed :: bool
  isClosed :: bool
  itemsInProgress :: int
  pc :: pc
  channel :: "channel option"
  deliveries :: "stream option"
  conn :: "conn option"
  isNewConn :: bool
  channelClose :: "notify option"
  connClose :: "notify option"
  lastTimeConnectionUsed :: int
  generation :: nat
  isNeedRecreateChannel :: "nat \<Rightarrow> bool"
  held :: "Message list"
  closers :: "nat \<Rightarrow> close_pc"

definition init :: Consumer where
  "init =
     \<lparr>ch = [], ch_closed = False, mu = None, closed = False, isClosed = False,
      itemsInProgress = 0, pc = ReconnectLoop, channel = None, deliveries = None,
      conn = None, isNewConn = False, channelClose = None, connClose = None,
      lastTimeConnectionUsed = 0, generation = 0, isNeedRecreateChannel = (\<lambda>_. False),
      held = [], closers = (\<lambda>_. NotCalled)\<rparr>"

text \<open>
  What \<open>CreateConsumerChannel\<close> hands back. Its three results are assigned to
  \<open>channel\<close>, \<open>deliveries\<close> and \<open>err\<close> whether it failed or not; when it succeeds the
  channel and the stream are not nil.
\<close>

datatype create_result =
    CreateFailed "channel option" "stream option" error
  | Created channel stream

text \<open>
  The events. Those of the goroutine running \<open>start\<close>:
  \<^item> \<open>TestClosed\<close>: it evaluates \<open>!c.isClosed\<close> at line 57 or line 105;
  \<^item> \<open>GetReturns r\<close>, \<open>CreateReturns r now\<close>: the pool returns (\<open>now\<close> is the clock at
    line 92);
  \<^item> \<open>ConnCloseRecv closeErr isOpen\<close>, \<open>ChannelCloseRecv closeErr isOpen\<close>: the select
    takes the case of line 107, of line 119, receiving that pair;
  \<^item> \<open>HeartbeatTick now\<close>, \<open>MetricsTick\<close>: the case of line 131, of line 144;
  \<^item> \<open>DeliveryRecv d isOpen now\<close>: the case of line 146;
  \<^item> \<open>SendBuffered\<close>, \<open>SendHandoff\<close>: the send of line 153 completes, into the buffer of
    \<open>c.ch\<close> or straight into a receive of the application;
  \<^item> \<open>WaitReturns\<close>: line 162 returns; \<open>Teardown\<close>: it runs the next of the lines 163
    to 165.

  Those of the application: \<open>AppReceive\<close> takes the oldest envelope out of \<open>c.ch\<close>,
  \<open>AppCallback i err\<close> calls the callback of the \<open>i\<close>-th envelope it holds, once. Those
  of caller \<open>k\<close> of \<open>Close\<close>: \<open>CloseCall k\<close> enters \<open>Close\<close>, \<open>CloseLock k\<close> gets the
  mutex, \<open>CloseTest k\<close> runs lines 176 to 180, \<open>CloseRecv k\<close> receives from \<open>c.closed\<close>
  and returns.
\<close>

datatype event =
    TestClosed
  | GetReturns "error + conn \<times> bool"
  | CreateReturns create_result int
  | ConnCloseRecv "error option" bool
  | ChannelCloseRecv "error option" bool
  | HeartbeatTick int
  | MetricsTick
  | DeliveryRecv delivery bool int
  | SendBuffered
  | SendHandoff
  | WaitReturns
  | Teardown
  | AppReceive
  | AppCallback nat "error option"
  | CloseCall nat
  | CloseLock nat
  | CloseTest nat
  | CloseRecv nat

text \<open>
  One step: the state after the event and the actions done, or \<open>None\<close> when the event
  cannot happen in the state (a receive from a nil channel, a send on a full channel, a
  wait on a non-zero counter and a lock of a held mutex block).

  What the step function takes for granted:
  \<^item> the goroutines see one memory: a write of \<open>c.isClosed\<close> by \<open>Close\<close> is seen by the
    next test in \<open>start\<close> (the field is a plain \<open>bool\<close> read without the mutex);
  \<^item> the consumer starts from the zero values of its fields, with \<open>start\<close> running once;
  \<^item> the pool, when it reports no error, hands back a connection, a channel and a stream
    that are not nil;
  \<^item> the application calls the callback of an envelope it has received, and only once
    (a second call would drive the wait group below zero, which panics);
  \<^item> a callback runs in one step (its store to the flag and its \<open>Done\<close>), and a heartbeat
    tick reads the flag once.

  When \<open>Get\<close> fails, the variable \<open>conn\<close> of that iteration is not read again, so the
  field \<open>conn\<close> keeps the connection of the iteration before.
\<close>

fun step :: "params \<Rightarrow> event \<Rightarrow> Consumer \<Rightarrow> (Consumer \<times> action list) option" where
  "step st TestClosed s =
     (case pc s of
        ReconnectLoop \<Rightarrow>
          if isClosed s then Some (s\<lparr>pc := Wait\<rparr>, [])
          else Some (s\<lparr>pc := CallGet\<rparr>,
                 [LogError ''connectionsManager.Get'', Get_call (connCfg st) (Tag (cfg st))])
      | ServeLoop \<Rightarrow>
          if isClosed s then Some (s\<lparr>pc := ReconnectLoop\<rparr>, [])
          else Some (s\<lparr>pc := Select\<rparr>, [])
      | _ \<Rightarrow> None)"
| "step st (GetReturns r) s =
     (case pc s of
        CallGet \<Rightarrow>
          (case r of
             Inl err \<Rightarrow>
               Some (s\<lparr>pc := ReconnectLoop\<rparr>,
                 [LogError ''connectionsManager.Get'', Sleep second])
           | Inr (cn, isNew) \<Rightarrow>
               Some (s\<lparr>conn := Some cn, isNewConn := isNew, pc := CallCreate\<rparr>,
                 [LogError ''connectionsManager.CreateConsumerChannel'',
                  CreateConsumerChannel_call (Some cn) (Tag (cfg st)) (Queue (cfg st))
                    (QueuePriority (cfg st)) (PrefetchCount (cfg st))]))
      | _ \<Rightarrow> None)"
| "step st (CreateReturns r now) s =
     (case pc s of
        CallCreate \<Rightarrow>
          (case r of
             CreateFailed chn dl err \<Rightarrow>
               Some (s\<lparr>channel := chn, deliveries := dl, pc := ReconnectLoop\<rparr>,
                 [LogError ''CreateConsumerChannel'', CloseConnection (conn s), Sleep second])
           | Created chn dl \<Rightarrow>
               (let g = Suc (generation s) in
                Some (s\<lparr>channel := Some chn, deliveries := Some dl,
                        channelClose := Some (ChannelNotify g),
                        connClose := (if isNewConn s then Some (ConnNotify g) else None),
                        lastTimeConnectionUsed := now,
                        generation := g,
                        isNeedRecreateChannel := (isNeedRecreateChannel s)(g := False),
                        pc := ServeLoop\<rparr>,
                  NotifyClose_channel chn (ChannelNotify g) #
                  (if isNewConn s then [NotifyClose_conn (conn s) (ConnNotify g)] else []))))
      | _ \<Rightarrow> None)"
| "step st (ConnCloseRecv closeErr isOpen) s =
     (case pc s of
        Select \<Rightarrow>
          (case connClose s of
             None \<Rightarrow> None
           | Some n \<Rightarrow>
               Some (if closeErr \<noteq> None \<or> \<not> isOpen
                     then (s\<lparr>pc := ReconnectLoop\<rparr>,
                           (if closeErr \<noteq> None
                            then [LogError ''rabbit consumer connection error''] else []) @
                           [Go_readAllErrors (connClose s), CloseConnection (conn s)])
                     else (s\<lparr>pc := ServeLoop\<rparr>, [])))
      | _ \<Rightarrow> None)"
| "step st (ChannelCloseRecv closeErr isOpen) s =
     (case pc s of
        Select \<Rightarrow>
          (case channelClose s of
             None \<Rightarrow> None
           | Some n \<Rightarrow>
               Some (if closeErr \<noteq> None \<or> \<not> isOpen
                     then (s\<lparr>pc := ReconnectLoop\<rparr>,
                           (if closeErr \<noteq> None
                            then [LogError ''rabbit consumer channel error''] else []) @
                           [Go_readAllErrors (channelClose s), CloseConsumerChannel (channel s)])
                     else (s\<lparr>pc := ServeLoop\<rparr>, [])))
      | _ \<Rightarrow> None)"
| "step st (HeartbeatTick now) s =
     (case pc s of
        Select \<Rightarrow>
          Some (if heartbeatReconnectionInterval < time_Since now (lastTimeConnectionUsed s)
                   \<or> isNeedRecreateChannel s (generation s)
                then (s\<lparr>pc := ReconnectLoop\<rparr>,
                      (if isNeedRecreateChannel s (generation s)
                       then [LogError ''heartbeatTicker.C''] else []) @
                      [CloseConsumerChannel (channel s)])
                else (s\<lparr>pc := ServeLoop\<rparr>, []))
      | _ \<Rightarrow> None)"
| "step st MetricsTick s =
     (case pc s of
        Select \<Rightarrow>
          Some (s\<lparr>pc := ServeLoop\<rparr>,
            [Go_collectMetrics (channel s) (hostname st) (Queue (cfg st))])
      | _ \<Rightarrow> None)"
| "step st (DeliveryRecv d isOpen now) s =
     (case pc s of
        Select \<Rightarrow>
          (case deliveries s of
             None \<Rightarrow> None
           | Some dl \<Rightarrow>
               Some (if \<not> isOpen
                     then (s\<lparr>pc := ReconnectLoop\<rparr>, [CloseConsumerChannel (channel s)])
                     else (s\<lparr>lastTimeConnectionUsed := now,
                             itemsInProgress := itemsInProgress s + 1,
                             pc := Sending \<lparr>msg = d, host = hostname st,
                                            queue = Queue (cfg st),
                                            callback = generation s\<rparr>\<rparr>,
                           [Add 1])))
      | _ \<Rightarrow> None)"
| "step st SendBuffered s =
     (case pc s of
        Sending m \<Rightarrow>
          if length (ch s) < capacity st
          then Some (s\<lparr>ch := ch s @ [m], pc := ServeLoop\<rparr>, [Send m])
          else None
      | _ \<Rightarrow> None)"
| "step st SendHandoff s =
     (case pc s of
        Sending m \<Rightarrow>
          if ch s = []
          then Some (s\<lparr>held := held s @ [m], pc := ServeLoop\<rparr>, [Send m])
          else None
      | _ \<Rightarrow> None)"
| "step st WaitReturns s =
     (case pc s of
        Wait \<Rightarrow> if itemsInProgress s = 0 then Some (s\<lparr>pc := ReleaseChannel\<rparr>, []) else None
      | _ \<Rightarrow> None)"
| "step st Teardown s =
     (case pc s of
        ReleaseChannel \<Rightarrow> Some (s\<lparr>pc := CloseCh\<rparr>, [CloseConsumerChannel (channel s)])
      | CloseCh \<Rightarrow> Some (s\<lparr>ch_closed := True, pc := CloseClosed\<rparr>, [])
      | CloseClosed \<Rightarrow> Some (s\<lparr>closed := True, pc := Returned\<rparr>, [])
      | _ \<Rightarrow> None)"
| "step st AppReceive s =
     (case ch s of
        [] \<Rightarrow> None
      | m # rest \<Rightarrow> Some (s\<lparr>ch := rest, held := held s @ [m]\<rparr>, []))"
| "step st (AppCallback i err) s =
     (if i < length (held s)
      then Some (s\<lparr>isNeedRecreateChannel :=
                     (if err \<noteq> None
                      then (isNeedRecreateChannel s)(callback (held s ! i) := True)
                      else isNeedRecreateChannel s),
                   itemsInProgress := itemsInProgress s - 1,
                   held := take i (held s) @ drop (Suc i) (held s)\<rparr>,
                 if err \<noteq> None then [LogError ''callback error''] else [])
      else None)"
| "step st (CloseCall k) s =
     (case closers s k of
        NotCalled \<Rightarrow> Some (s\<lparr>closers := (closers s)(k := AtLock)\<rparr>, [])
      | CloseReturned r \<Rightarrow> Some (s\<lparr>closers := (closers s)(k := AtLock)\<rparr>, [])
      | _ \<Rightarrow> None)"
| "step st (CloseLock k) s =
     (case closers s k of
        AtLock \<Rightarrow>
          if mu s = None
          then Some (s\<lparr>mu := Some k, closers := (closers s)(k := Locked)\<rparr>, [])
          else None
      | _ \<Rightarrow> None)"
| "step st (CloseTest k) s =
     (case closers s k of
        Locked \<Rightarrow>
          if isClosed s
          then Some (s\<lparr>mu := None, closers := (closers s)(k := CloseReturned None)\<rparr>, [])
          else Some (s\<lparr>isClosed := True, closers := (closers s)(k := AwaitClosed)\<rparr>, [])
      | _ \<Rightarrow> None)"
| "step st (CloseRecv k) s =
     (case closers s k of
        AwaitClosed \<Rightarrow>
          if closed s
          then Some (s\<lparr>mu := None, closers := (closers s)(k := CloseReturned None)\<rparr>, [])
          else None
      | _ \<Rightarrow> None)"

text \<open>
  A run: the events happen one after the other, each in the state the one before left;
  the result is the last state and all the actions, in order. Goroutines interleave at
  the grain of the events.
\<close>

fun run :: "params \<Rightarrow> event list \<Rightarrow> Consumer \<Rightarrow> (Consumer \<times> action list) option" where
  "run st [] s = Some (s, [])"
| "run st (e # es) s =
     (case step st e s of
        None \<Rightarrow> None
      | Some (s', as) \<Rightarrow>
          (case run st es s' of
             None \<Rightarrow> None
           | Some (s'', bs) \<Rightarrow> Some (s'', as @ bs)))"

text \<open>
  What a receive on a channel made for \<open>NotifyClose\<close> can yield. Only the broker
  client (amqp091-go) writes to these channels: it sends the error that closed the
  connection or the channel, never nil, and then closes the channel; on a graceful close
  it sends nothing and closes the channel. So a receive yields a non-nil error, or nil
  from the closed channel, and never nil from a channel that is still open.
\<close>

definition receivable :: "error option \<Rightarrow> bool \<Rightarrow> bool" where
  "receivable closeErr isOpen \<longleftrightarrow> (closeErr = None \<longrightarrow> \<not> isOpen)"

section \<open>Invariants of the consumer engine\<close>

text \<open>
  Positions of \<open>start\<close>: \<open>sending\<close> counts the envelope whose send is pending,
  \<open>draining\<close> holds from line 162 on, \<open>drained\<close> from line 163 on, and
  \<open>ch_closed_at\<close> after line 164.
\<close>

fun sending :: "pc \<Rightarrow> nat" where
  "sending (Sending m) = 1"
| "sending _ = 0"

fun draining :: "pc \<Rightarrow> bool" where
  "draining Wait = True"
| "draining ReleaseChannel = True"
| "draining CloseCh = True"
| "draining CloseClosed = True"
| "draining Returned = True"
| "draining _ = False"

fun drained :: "pc \<Rightarrow> bool" where
  "drained ReleaseChannel = True"
| "drained CloseCh = True"
| "drained CloseClosed = True"
| "drained Returned = True"
| "drained _ = False"

fun ch_closed_at :: "pc \<Rightarrow> bool" where
  "ch_closed_at CloseClosed = True"
| "ch_closed_at Returned = True"
| "ch_closed_at _ = False"

text \<open>
  The wait group counts the envelopes in the buffer of \<open>c.ch\<close>, those the application
  holds, and the one being sent; \<open>start\<close> is past its loops only when \<open>c.isClosed\<close> is
  set, past line 162 only with the counter at zero; \<open>c.ch\<close> is closed exactly after
  line 164 and \<open>c.closed\<close> exactly after line 165.
\<close>

definition inv_eng :: "Consumer \<Rightarrow> bool" where
  "inv_eng s \<longleftrightarrow>
     itemsInProgress s = int (length (ch s) + length (held s) + sending (pc s))
   \<and> (draining (pc s) \<longrightarrow> isClosed s)
   \<and> (drained (pc s) \<longrightarrow> itemsInProgress s = 0)
   \<and> ch_closed s = ch_closed_at (pc s)
   \<and> closed s = (pc s = Returned)"

text \<open>
  The callers of \<open>Close\<close>: the mutex is held exactly by the one caller between lines 173
  and 183; a call that has returned returned nil, after \<open>c.closed\<close> was closed; and when
  \<open>c.isClosed\<close> is set, either \<open>c.closed\<close> is closed or the caller that set it is still
  waiting for that.
\<close>

definition inv_close :: "Consumer \<Rightarrow> bool" where
  "inv_close s \<longleftrightarrow>
     (\<forall>k. (closers s k = Locked \<or> closers s k = AwaitClosed) \<longleftrightarrow> mu s = Some k)
   \<and> (\<forall>k r. closers s k = CloseReturned r \<longrightarrow> r = None \<and> closed s)
   \<and> (isClosed s \<longrightarrow> closed s \<or> (\<exists>k. closers s k = AwaitClosed))"

fun is_close_event :: "event \<Rightarrow> bool" where
  "is_close_event (CloseCall k) = True"
| "is_close_event (CloseLock k) = True"
| "is_close_event (CloseTest k) = True"
| "is_close_event (CloseRecv k) = True"
| "is_close_event _ = False"

definition inv :: "Consumer \<Rightarrow> bool" where
  "inv s \<longleftrightarrow> inv_eng s \<and> inv_close s"


text \<open>
  A generation is being served while \<open>start\<close> is in its inner loop. Then the channel,
  its stream and the connection are there, the channel's close-signals are subscribed to,
  and the connection's are subscribed to exactly when the connection was reported new.
\<close>

fun serving :: "pc \<Rightarrow> bool" where
  "serving ServeLoop = True"
| "serving Select = True"
| "serving (Sending m) = True"
| "serving _ = False"

definition inv_gen :: "Consumer \<Rightarrow> bool" where
  "inv_gen s \<longleftrightarrow>
     (serving (pc s) \<longrightarrow>
        channelClose s \<noteq> None
      \<and> (connClose s \<noteq> None \<longleftrightarrow> isNewConn s)
      \<and> channel s \<noteq> None \<and> deliveries s \<noteq> None \<and> conn s \<noteq> None)
   \<and> (pc s = CallCreate \<longrightarrow> conn s \<noteq> None)"

section \<open>Reading a run\<close>

text \<open>
  From the actions of a run: the envelopes sent on \<open>c.ch\<close>, in order (\<open>sends\<close>), and the
  increments of the wait group together with the sends (\<open>add_and_send\<close>). From its
  events: the deliveries read off the broker's stream, in order (\<open>received\<close>), and how
  many completion callbacks the application called (\<open>completed\<close>). \<open>pending\<close> is the
  envelope whose send has not completed yet.
\<close>


fun sent :: "action \<Rightarrow> Message list" where
  "sent (Send m) = [m]"
| "sent _ = []"

definition sends :: "action list \<Rightarrow> Message list" where
  "sends as = concat (map sent as)"

fun wg_traffic :: "action \<Rightarrow> action list" where
  "wg_traffic (Add n) = [Add n]"
| "wg_traffic (Send m) = [Send m]"
| "wg_traffic _ = []"

definition add_and_send :: "action list \<Rightarrow> action list" where
  "add_and_send as = concat (map wg_traffic as)"

fun delivered :: "event \<Rightarrow> delivery list" where
  "delivered (DeliveryRecv d isOpen now) = (if isOpen then [d] else [])"
| "delivered _ = []"

definition received :: "event list \<Rightarrow> delivery list" where
  "received es = concat (map delivered es)"

fun pending :: "pc \<Rightarrow> Message list" where
  "pending (Sending m) = [m]"
| "pending _ = []"

fun completes :: "event \<Rightarrow> nat" where
  "completes (AppCallback i err) = 1"
| "completes _ = 0"

definition completed :: "event list \<Rightarrow> nat" where
  "completed es = sum_list (map completes es)"

text \<open>
  The clock readings \<open>start\<close> stores in \<open>lastTimeConnectionUsed\<close>: the one of line 92,
  when a channel has been created, and the one of line 151, when a delivery has been read.
  \<open>last_use\<close> is the latest of them in a run: the time of the last delivery on the
  current channel, or the time the channel was created when it has delivered nothing yet.
\<close>

fun stamps :: "event \<Rightarrow> int option" where
  "stamps (CreateReturns (Created chn dl) now) = Some now"
| "stamps (DeliveryRecv d isOpen now) = (if isOpen then Some now else None)"
| "stamps _ = None"

definition last_use :: "event list \<Rightarrow> int" where
  "last_use es = foldl (\<lambda>t e. case stamps e of Some now \<Rightarrow> now | None \<Rightarrow> t) 0 es"

text \<open>An envelope carries the host and the queue of the consumer that made it.\<close>

definition envelope_ok :: "params \<Rightarrow> Message \<Rightarrow> bool" where
  "envelope_ok st m \<longleftrightarrow> host m = hostname st \<and> queue m = Queue (cfg st)"

section \<open>Failed attempts to acquire\<close>

text \<open>
  A failed attempt of the reconnect loop: the pool's \<open>Get\<close> returns an error, or it
  hands out a connection and \<open>CreateConsumerChannel\<close> returns an error. \<open>attempt\<close> is
  the events of one failed attempt, \<open>attempt_actions\<close> what the attempt is expected to
  do, in order, and \<open>after_attempt\<close> the variables it is expected to leave changed.
  \<open>sleeps\<close> reads the durations slept off a list of actions.
\<close>

datatype failure =
    GetFails error
  | CreateFails conn bool "channel option" "stream option" error int

fun attempt :: "failure \<Rightarrow> event list" where
  "attempt (GetFails err) = [TestClosed, GetReturns (Inl err)]"
| "attempt (CreateFails cn isNew chn dl err now) =
     [TestClosed, GetReturns (Inr (cn, isNew)), CreateReturns (CreateFailed chn dl err) now]"

fun attempt_actions :: "params \<Rightarrow> failure \<Rightarrow> action list" where
  "attempt_actions st (GetFails err) =
     [LogError ''connectionsManager.Get'', Get_call (connCfg st) (Tag (cfg st)),
      LogError ''connectionsManager.Get'', Sleep 1000000000]"
| "attempt_actions st (CreateFails cn isNew chn dl err now) =
     [LogError ''connectionsManager.Get'', Get_call (connCfg st) (Tag (cfg st)),
      LogError ''connectionsManager.CreateConsumerChannel'',
      CreateConsumerChannel_call (Some cn) (Tag (cfg st)) (Queue (cfg st))
        (QueuePriority (cfg st)) (PrefetchCount (cfg st)),
      LogError ''CreateConsumerChannel'', CloseConnection (Some cn), Sleep 1000000000]"

fun after_attempt :: "failure \<Rightarrow> Consumer \<Rightarrow> Consumer" where
  "after_attempt (GetFails err) s = s"
| "after_attempt (CreateFails cn isNew chn dl err now) s =
     s\<lparr>conn := Some cn, isNewConn := isNew, channel := chn, deliveries := dl\<rparr>"

fun slept :: "action \<Rightarrow> int list" where
  "slept (Sleep d) = [d]"
| "slept _ = []"

definition sleeps :: "action list \<Rightarrow> int list" where
  "sleeps as = concat (map slept as)"

section \<open>A concrete consumer and concrete runs\<close>

text \<open>
  A consumer of the queue \<open>orders\<close> with prefetch 1 and an output channel of capacity 1.
  In \<open>three_deliveries\<close> the pool hands out a new connection 3 and a channel 4, and
  three deliveries go through to the application. In \<open>drain_and_close\<close> caller 0 then
  calls \<open>Close\<close>, the application completes the three envelopes, and \<open>start\<close> winds up.
\<close>


definition st0 :: params where
  "st0 = \<lparr>connCfg = \<lparr>Address = ''mq:5672'', VHost = ''/'', User = ''guest'', Password = ''guest''\<rparr>,
          cfg = \<lparr>Queue = ''orders'', Tag = ''worker'', QueuePriority = 0, PrefetchCount = 1,
                 Metrics = None\<rparr>,
          hostname = ''mq'', capacity = 1\<rparr>"

definition d1 :: delivery where "d1 = \<lparr>DeliveryTag = 1, Body = ''a''\<rparr>"
definition d2 :: delivery where "d2 = \<lparr>DeliveryTag = 2, Body = ''b''\<rparr>"
definition d3 :: delivery where "d3 = \<lparr>DeliveryTag = 3, Body = ''c''\<rparr>"

definition three_deliveries :: "event list" where
  "three_deliveries =
     [TestClosed, GetReturns (Inr (3, True)), CreateReturns (Created 4 5) 100,
      TestClosed, DeliveryRecv d1 True 200, SendBuffered, AppReceive,
      TestClosed, DeliveryRecv d2 True 300, SendBuffered, AppReceive,
      TestClosed, DeliveryRecv d3 True 400, SendBuffered, AppReceive]"

definition drain_and_close :: "event list" where
  "drain_and_close =
     three_deliveries @
     [CloseCall 0, CloseLock 0, CloseTest 0, TestClosed, TestClosed,
      AppCallback 1 None, AppCallback 0 None, AppCallback 0 None,
      WaitReturns, Teardown, Teardown, Teardown, CloseRecv 0]"


text \<open>
  \<open>to_select\<close> brings the consumer to the \<open>select\<close> of its first generation, on a new
  connection: the state \<open>selecting\<close>. In \<open>to_select_shared\<close> the pool reports the
  connection as shared instead: the state \<open>selecting_shared\<close>.
\<close>

definition selecting :: Consumer where
  "selecting =
     \<lparr>ch = [], ch_closed = False, mu = None, closed = False, isClosed = False,
      itemsInProgress = 0, pc = Select, channel = Some 4, deliveries = Some 5,
      conn = Some 3, isNewConn = True, channelClose = Some (ChannelNotify 1),
      connClose = Some (ConnNotify 1), lastTimeConnectionUsed = 100, generation = 1,
      isNeedRecreateChannel = (\<lambda>_. False), held = [], closers = (\<lambda>_. NotCalled)\<rparr>"

definition to_select :: "event list" where
  "to_select =
     [TestClosed, GetReturns (Inr (3, True)), CreateReturns (Created 4 5) 100, TestClosed]"

definition selecting_shared :: Consumer where
  "selecting_shared = selecting\<lparr>isNewConn := False, connClose := None\<rparr>"

definition to_select_shared :: "event list" where
  "to_select_shared =
     [TestClosed, GetReturns (Inr (3, False)), CreateReturns (Created 4 5) 100, TestClosed]"

text \<open>
  In \<open>close_twice\<close> caller 0 calls \<open>Close\<close>, caller 1 calls it while caller 0 is
  waiting, \<open>start\<close> winds up, caller 0 returns and caller 1 gets the mutex. In
  \<open>old_envelope_held\<close> a delivery is read and its envelope handed to the
  application, the channel's close-signal source is found closed, and a second
  generation starts at time 300 while the application still holds the envelope of the
  first: the state \<open>holding\<close>. \<open>lost_error\<close> is that state after the application has
  called the callback of the envelope with an error.
\<close>

definition close_twice :: "event list" where
  "close_twice =
     to_select @
     [CloseCall 0, CloseLock 0, CloseTest 0, CloseCall 1, HeartbeatTick 200,
      TestClosed, TestClosed, WaitReturns, Teardown, Teardown, Teardown,
      CloseRecv 0, CloseLock 1]"

definition old_envelope_held :: "event list" where
  "old_envelope_held =
     to_select @
     [DeliveryRecv d1 True 200, SendBuffered, AppReceive, TestClosed,
      ChannelCloseRecv None False, TestClosed, GetReturns (Inr (3, False)),
      CreateReturns (Created 6 7) 300, TestClosed]"

definition holding :: Consumer where
  "holding =
     \<lparr>ch = [], ch_closed = False, mu = None, closed = False, isClosed = False,
      itemsInProgress = 1, pc = Select, channel = Some 6, deliveries = Some 7,
      conn = Some 3, isNewConn = False, channelClose = Some (ChannelNotify 2),
      connClose = None, lastTimeConnectionUsed = 300, generation = 2,
      isNeedRecreateChannel = (\<lambda>_. False),
      held = [\<lparr>msg = d1, host = ''mq'', queue = ''orders'', callback = 1\<rparr>],
      closers = (\<lambda>_. NotCalled)\<rparr>"

definition lost_error :: Consumer where
  "lost_error =
     holding\<lparr>isNeedRecreateChannel := (\<lambda>_. False)(1 := True), itemsInProgress := 0,
             held := []\<rparr>"

text \<open>
  Environments of \<open>collectMetrics\<close>: a passive declare that fails, for a consumer
  whose metrics configuration has no callback; a queue-length callback that panics, on
  a queue of three messages and on an empty queue; an empty queue; and a queue of three
  messages whose oldest is 2.5 seconds old.
\<close>

definition cc_delay :: ConsumerConfig where
  "cc_delay = \<lparr>Queue = ''orders'', Tag = ''worker'', QueuePriority = 0, PrefetchCount = 1,
       Metrics = Some \<lparr>QueueLength = True, QueueDelay = True, CheckInterval = 60 * second\<rparr>\<rparr>"

definition cc_no_callbacks :: ConsumerConfig where
  "cc_no_callbacks = \<lparr>Queue = ''orders'', Tag = ''worker'', QueuePriority = 0, PrefetchCount = 1,
       Metrics = Some \<lparr>QueueLength = False, QueueDelay = False, CheckInterval = 60 * second\<rparr>\<rparr>"

definition env_declare_fails :: metrics_env where
  "env_declare_fails = \<lparr>IsClosed_res = Ret False,
       QueueDeclarePassive_res = Ret (Inl (Error ''NOT_FOUND - no queue'')),
       QueueLength_res = Ret (), QueueDelay_res = Ret (), Get_res = Ret (False, None),
       Seconds_res = 0, Reject_res = Ret None\<rparr>"

definition env_callback_panics :: metrics_env where
  "env_callback_panics = \<lparr>IsClosed_res = Ret False, QueueDeclarePassive_res = Ret (Inr 3),
       QueueLength_res = Panic ''nil map'', QueueDelay_res = Ret (), Get_res = Ret (True, None),
       Seconds_res = 5 / 2, Reject_res = Ret None\<rparr>"

definition env_length_panics :: metrics_env where
  "env_length_panics = \<lparr>IsClosed_res = Ret False, QueueDeclarePassive_res = Ret (Inr 0),
       QueueLength_res = Panic ''nil map'', QueueDelay_res = Ret (), Get_res = Ret (False, None),
       Seconds_res = 0, Reject_res = Ret None\<rparr>"

definition env_empty :: metrics_env where
  "env_empty = \<lparr>IsClosed_res = Ret False, QueueDeclarePassive_res = Ret (Inr 0),
       QueueLength_res = Ret (), QueueDelay_res = Ret (), Get_res = Ret (False, None),
       Seconds_res = 0, Reject_res = Ret None\<rparr>"

definition env_three :: metrics_env where
  "env_three = \<lparr>IsClosed_res = Ret False, QueueDeclarePassive_res = Ret (Inr 3),
       QueueLength_res = Ret (), QueueDelay_res = Ret (), Get_res = Ret (True, None),
       Seconds_res = 5 / 2, Reject_res = Ret None\<rparr>"

section \<open>Properties of the ClickHouse container\<close>

text \<open>
  Claim C10. If \<open>Connect\<close> fails, that is the driver's open call or the ping that
  follows returns an error, then \<open>Connect\<close> returns a non-nil error that wraps that
  very error, the container is exactly as it was (its configs, connections and
  collectors maps are unchanged, so no entry was added or replaced under the name), and
  no call was made on the Prometheus registry: no collector was registered or
  unregistered.
\<close>

theorem Connect_failure_leaves_container_unchanged:
  assumes "open_err env \<noteq> None \<or> ping_err env \<noteq> None"
  shows "\<exists>e msg. Connect env cont name c = (Ret (Some (Wrapf e msg)), cont, [])
           \<and> (open_err env = Some e \<or> (open_err env = None \<and> ping_err env = Some e))"
  using assms by (auto simp: Connect_def split: option.splits)

theorem Connect_failure_witness:
  "\<exists>e msg. Connect \<lparr>open_err = None, ping_err = Some (Error ''timeout''), register_err = None\<rparr>
       NewContainer ''main''
       \<lparr>dsn = ''clickhouse://db:9000'', MaxConnections = 10, MaxIdleConnections = 5,
        MaxConnectionIdleTime = 0, MaxConnectionLifetime = 0\<rparr>
     = (Ret (Some (Wrapf e msg)), NewContainer, []) \<and> e = Error ''timeout''"
  using Connect_failure_leaves_container_unchanged
    [of "\<lparr>open_err = None, ping_err = Some (Error ''timeout''), register_err = None\<rparr>"
        NewContainer "''main''"
        "\<lparr>dsn = ''clickhouse://db:9000'', MaxConnections = 10, MaxIdleConnections = 5,
         MaxConnectionIdleTime = 0, MaxConnectionLifetime = 0\<rparr>"]
  by auto

section \<open>Properties of the metrics sampler\<close>

lemma call_Ret: "call a (Ret x) k = (a # fst (k x), snd (k x))"
  by (simp add: call_def split: prod.splits)

lemma call_Panic: "call a (Panic p) k = ([a], Some p)"
  by (simp add: call_def)

lemma delay_reports_Nil: "delay_reports [] = []"
  by (simp add: delay_reports_def)

lemma delay_reports_Cons:
  "delay_reports (a # as) = (case a of QueueDelay_call h q v \<Rightarrow> [v] | _ \<Rightarrow> []) @ delay_reports as"
  by (simp add: delay_reports_def)

lemma delay_reports_append: "delay_reports (as @ bs) = delay_reports as @ delay_reports bs"
  by (simp add: delay_reports_def)

lemma int64_nonneg: "0 \<le> f \<Longrightarrow> 0 \<le> int64_of_float64 f"
  by (simp add: int64_of_float64_def)

lemma quiet_call:
  assumes "\<not> is_log a" and "\<And>x. quiet (k x)"
  shows "quiet (call a r k)"
  using assms by (cases r) (simp_all add: call_Ret call_Panic quiet_def)

lemma quiet_return: "quiet return"
  by (simp add: return_def quiet_def)

lemma quiet_body: "quiet (collectMetrics_body env cc chn h q)"
  unfolding collectMetrics_body_def
  by (auto intro!: quiet_call quiet_return split: option.splits sum.splits prod.splits)

lemma collectMetrics_body_no_log:
  "\<not> list_ex is_log (fst (collectMetrics_body env cc chn h q))"
  using quiet_body[of env cc chn h q] by (simp add: quiet_def)

lemma int64_floor:
  "0 \<le> f \<Longrightarrow> real_of_int (int64_of_float64 f) \<le> f \<and> f < real_of_int (int64_of_float64 f) + 1"
  by (simp add: int64_of_float64_def)

text \<open>
  Claim C8, as amended. Take a run of \<open>collectMetrics\<close> on an open channel, with a
  metrics configuration whose queue-delay callback is set, in which the passive declare
  succeeds and reports the depth, and in which the queue-length callback, if there is
  one, returns without a panic. If the depth is zero, the queue-delay callback is called
  once, with exactly 0, and no message is fetched. If the depth is not zero and a message
  is fetched without ack (\<open>channel.Get(queue, false)\<close> returns it with no error), the
  message is rejected with requeue; the queue-delay callback is called only when the
  elapsed seconds are non-negative, and the value \<open>v\<close> it is called with is then the
  whole seconds elapsed: a non-negative integer with \<open>v \<le> seconds < v + 1\<close>; when the
  reject returns, the callback is called exactly when the seconds are non-negative, once,
  with the seconds cut to an integer.
\<close>

theorem collectMetrics_queue_delay:
  assumes usable: "IsClosed_res env = Ret False"
    and metrics: "Metrics cc = Some m" and delay: "QueueDelay m"
    and declared: "QueueDeclarePassive_res env = Ret (Inr depth)"
    and length_ok: "QueueLength m \<longrightarrow> QueueLength_res env = Ret ()"
  shows "(depth = 0 \<longrightarrow>
            delay_reports (fst (collectMetrics env cc (Some c) h q)) = [0]
          \<and> Channel_Get_call c q False \<notin> set (fst (collectMetrics env cc (Some c) h q)))
       \<and> (depth \<noteq> 0 \<and> Get_res env = Ret (True, None) \<longrightarrow>
            Channel_Get_call c q False \<in> set (fst (collectMetrics env cc (Some c) h q))
          \<and> Reject_call True \<in> set (fst (collectMetrics env cc (Some c) h q))
          \<and> (\<forall>v \<in> set (delay_reports (fst (collectMetrics env cc (Some c) h q))).
                0 \<le> Seconds_res env \<and> 0 \<le> v
              \<and> real_of_int v \<le> Seconds_res env \<and> Seconds_res env < real_of_int v + 1
              \<and> QueueDelay_call h q v \<in> set (fst (collectMetrics env cc (Some c) h q)))
          \<and> (\<forall>r. Reject_res env = Ret r \<longrightarrow>
                delay_reports (fst (collectMetrics env cc (Some c) h q))
                  = (if 0 \<le> Seconds_res env then [int64_of_float64 (Seconds_res env)] else [])))"
proof -
  from int64_floor[of "Seconds_res env"] int64_nonneg[of "Seconds_res env"]
  have f: "0 \<le> Seconds_res env \<Longrightarrow>
      0 \<le> int64_of_float64 (Seconds_res env)
    \<and> real_of_int (int64_of_float64 (Seconds_res env)) \<le> Seconds_res env
    \<and> Seconds_res env < real_of_int (int64_of_float64 (Seconds_res env)) + 1"
    by blast
  from assms f show ?thesis
    by (cases "QueueLength m"; cases "QueueDelay_res env"; cases "Reject_res env")
       (auto simp: collectMetrics_def collectMetrics_body_def call_Ret call_Panic return_def
          delay_reports_Nil delay_reports_Cons delay_reports_append
          split: prod.splits option.splits)
qed

text \<open>
  The claim as it was stated fails. The queue is empty and the queue-delay callback is
  set, but the queue-length callback, which is called first, panics: the panic is
  recovered and logged, and the queue-delay callback is not called at all.
\<close>

theorem queue_length_panic_counterexample:
  "collectMetrics env_length_panics cc_delay (Some 4) ''mq'' ''orders''
     = ([IsClosed_call 4, QueueDeclarePassive_call 4 ''orders'',
         QueueLength_call ''mq'' ''orders'' 0,
         LogError ''unable to collect rabbit metrics''], None)
   \<and> delay_reports (fst (collectMetrics env_length_panics cc_delay (Some 4) ''mq'' ''orders'')) = []"
  by (simp add: collectMetrics_def collectMetrics_body_def call_def return_def
        env_length_panics_def cc_delay_def delay_reports_def)

text \<open>
  The theorem at the empty queue and at the queue of three messages: the callback
  receives 0, and 2 for the 2.5 seconds.
\<close>

theorem collectMetrics_queue_delay_witness:
  "delay_reports (fst (collectMetrics env_empty cc_delay (Some 4) ''mq'' ''orders'')) = [0]
   \<and> delay_reports (fst (collectMetrics env_three cc_delay (Some 4) ''mq'' ''orders'')) = [2]
   \<and> Reject_call True \<in> set (fst (collectMetrics env_three cc_delay (Some 4) ''mq'' ''orders''))"
proof -
  let ?m = "\<lparr>QueueLength = True, QueueDelay = True, CheckInterval = 60 * second\<rparr>"
  have m: "Metrics cc_delay = Some ?m" "QueueDelay ?m"
    by (simp_all add: cc_delay_def)
  have e: "IsClosed_res env_empty = Ret False" "QueueDeclarePassive_res env_empty = Ret (Inr 0)"
    "QueueLength ?m \<longrightarrow> QueueLength_res env_empty = Ret ()"
    by (simp_all add: env_empty_def)
  have t: "IsClosed_res env_three = Ret False" "QueueDeclarePassive_res env_three = Ret (Inr 3)"
    "QueueLength ?m \<longrightarrow> QueueLength_res env_three = Ret ()"
    "Get_res env_three = Ret (True, None)" "Reject_res env_three = Ret None"
    "Seconds_res env_three = 5 / 2"
    by (simp_all add: env_three_def)
  have f: "int64_of_float64 (5 / 2) = 2"
    by (simp add: int64_of_float64_def)
  note A = collectMetrics_queue_delay[OF e(1) m e(2,3), of 4 "''mq''" "''orders''"]
  note B = collectMetrics_queue_delay[OF t(1) m t(2,3), of 4 "''mq''" "''orders''"]
  from A[THEN conjunct1]
  have a: "delay_reports (fst (collectMetrics env_empty cc_delay (Some 4) ''mq'' ''orders'')) = [0]"
    by simp
  have "(3::int) \<noteq> 0 \<and> Get_res env_three = Ret (True, None)"
    using t(4) by simp
  note C = B[THEN conjunct2, THEN mp, OF this]
  note b = C[THEN conjunct2, THEN conjunct1]
  note c = C[THEN conjunct2, THEN conjunct2, THEN conjunct2, THEN spec, THEN mp, OF t(5)]
  from c
  have "delay_reports (fst (collectMetrics env_three cc_delay (Some 4) ''mq'' ''orders'')) = [2]"
    unfolding t(6) f by simp
  with a b show ?thesis by blast
qed

section \<open>The invariants hold in every run\<close>

lemma inv_eng_TestClosed: "inv_eng s \<Longrightarrow> step st TestClosed s = Some (s', as) \<Longrightarrow> inv_eng s'"
  by (cases "pc s"; simp add: inv_eng_def Let_def split: if_splits sum.splits create_result.splits option.splits; fastforce)

lemma inv_eng_GetReturns: "inv_eng s \<Longrightarrow> step st (GetReturns r) s = Some (s', as) \<Longrightarrow> inv_eng s'"
  by (cases "pc s"; simp add: inv_eng_def Let_def split: if_splits sum.splits create_result.splits option.splits; fastforce)

lemma inv_eng_CreateReturns: "inv_eng s \<Longrightarrow> step st (CreateReturns r now) s = Some (s', as) \<Longrightarrow> inv_eng s'"
  by (cases "pc s"; simp add: inv_eng_def Let_def split: if_splits sum.splits create_result.splits option.splits; fastforce)

lemma inv_eng_ConnCloseRecv: "inv_eng s \<Longrightarrow> step st (ConnCloseRecv ce io) s = Some (s', as) \<Longrightarrow> inv_eng s'"
  by (cases "pc s"; simp add: inv_eng_def Let_def split: if_splits sum.splits create_result.splits option.splits; fastforce)

lemma inv_eng_ChannelCloseRecv: "inv_eng s \<Longrightarrow> step st (ChannelCloseRecv ce io) s = Some (s', as) \<Longrightarrow> inv_eng s'"
  by (cases "pc s"; simp add: inv_eng_def Let_def split: if_splits sum.splits create_result.splits option.splits; fastforce)

lemma inv_eng_HeartbeatTick: "inv_eng s \<Longrightarrow> step st (HeartbeatTick now) s = Some (s', as) \<Longrightarrow> inv_eng s'"
  by (cases "pc s"; simp add: inv_eng_def Let_def split: if_splits sum.splits create_result.splits option.splits; fastforce)

lemma inv_eng_MetricsTick: "inv_eng s \<Longrightarrow> step st MetricsTick s = Some (s', as) \<Longrightarrow> inv_eng s'"
  by (cases "pc s"; simp add: inv_eng_def Let_def split: if_splits sum.splits create_result.splits option.splits; fastforce)

lemma inv_eng_DeliveryRecv: "inv_eng s \<Longrightarrow> step st (DeliveryRecv d io now) s = Some (s', as) \<Longrightarrow> inv_eng s'"
  by (cases "pc s"; simp add: inv_eng_def Let_def split: if_splits sum.splits create_result.splits option.splits; fastforce)

lemma inv_eng_SendBuffered: "inv_eng s \<Longrightarrow> step st SendBuffered s = Some (s', as) \<Longrightarrow> inv_eng s'"
  by (cases "pc s"; simp add: inv_eng_def Let_def split: if_splits sum.splits create_result.splits option.splits; fastforce)

lemma inv_eng_SendHandoff: "inv_eng s \<Longrightarrow> step st SendHandoff s = Some (s', as) \<Longrightarrow> inv_eng s'"
  by (cases "pc s"; simp add: inv_eng_def Let_def split: if_splits sum.splits create_result.splits option.splits; fastforce)

lemma inv_eng_WaitReturns: "inv_eng s \<Longrightarrow> step st WaitReturns s = Some (s', as) \<Longrightarrow> inv_eng s'"
  by (cases "pc s"; simp add: inv_eng_def Let_def split: if_splits sum.splits create_result.splits option.splits; fastforce)

lemma inv_eng_Teardown: "inv_eng s \<Longrightarrow> step st Teardown s = Some (s', as) \<Longrightarrow> inv_eng s'"
  by (cases "pc s"; simp add: inv_eng_def Let_def split: if_splits sum.splits create_result.splits option.splits; fastforce)

lemma inv_eng_CloseCall: "inv_eng s \<Longrightarrow> step st (CloseCall k) s = Some (s', as) \<Longrightarrow> inv_eng s'"
  by (cases "closers s k"; simp add: inv_eng_def split: if_splits; fastforce)

lemma inv_eng_CloseLock: "inv_eng s \<Longrightarrow> step st (CloseLock k) s = Some (s', as) \<Longrightarrow> inv_eng s'"
  by (cases "closers s k"; simp add: inv_eng_def split: if_splits; fastforce)

lemma inv_eng_CloseTest: "inv_eng s \<Longrightarrow> step st (CloseTest k) s = Some (s', as) \<Longrightarrow> inv_eng s'"
  by (cases "closers s k"; simp add: inv_eng_def split: if_splits; fastforce)

lemma inv_eng_CloseRecv: "inv_eng s \<Longrightarrow> step st (CloseRecv k) s = Some (s', as) \<Longrightarrow> inv_eng s'"
  by (cases "closers s k"; simp add: inv_eng_def split: if_splits; fastforce)

lemma inv_eng_AppReceive: "inv_eng s \<Longrightarrow> step st AppReceive s = Some (s', as) \<Longrightarrow> inv_eng s'"
  by (cases "ch s"; simp add: inv_eng_def; fastforce)

lemma inv_eng_AppCallback:
  assumes "inv_eng s" and "step st (AppCallback i err) s = Some (s', as)"
  shows "inv_eng s'"
proof -
  from assms(2) have i: "i < length (held s)"
    by (simp split: if_splits)
  with assms(2) have fields: "pc s' = pc s" "ch s' = ch s" "isClosed s' = isClosed s"
    "ch_closed s' = ch_closed s" "closed s' = closed s"
    "itemsInProgress s' = itemsInProgress s - 1"
    "held s' = take i (held s) @ drop (Suc i) (held s)"
    by auto
  from i have len: "length (held s') = length (held s) - 1"
    unfolding fields by (simp add: min_def)
  from assms(1) have items: "itemsInProgress s
      = int (length (ch s) + length (held s) + sending (pc s))"
    by (simp add: inv_eng_def)
  have "\<not> drained (pc s)"
  proof
    assume "drained (pc s)"
    with assms(1) have "itemsInProgress s = 0" by (simp add: inv_eng_def)
    with items have "length (held s) = 0" by arith
    with i show False by simp
  qed
  moreover from i items
  have "itemsInProgress s - 1 = int (length (ch s) + (length (held s) - 1) + sending (pc s))"
    by arith
  ultimately show ?thesis
    using assms(1) unfolding inv_eng_def fields(1-6) len by simp
qed

lemma inv_eng_step: "inv_eng s \<Longrightarrow> step st e s = Some (s', as) \<Longrightarrow> inv_eng s'"
  by (cases e)
     (blast intro: inv_eng_TestClosed inv_eng_GetReturns inv_eng_CreateReturns
        inv_eng_ConnCloseRecv inv_eng_ChannelCloseRecv inv_eng_HeartbeatTick
        inv_eng_MetricsTick inv_eng_DeliveryRecv inv_eng_SendBuffered inv_eng_SendHandoff
        inv_eng_WaitReturns inv_eng_Teardown inv_eng_AppReceive inv_eng_AppCallback
        inv_eng_CloseCall inv_eng_CloseLock inv_eng_CloseTest inv_eng_CloseRecv)+

lemma step_frame_close:
  assumes "\<not> is_close_event e" and "step st e s = Some (s', as)"
  shows "closers s' = closers s \<and> mu s' = mu s \<and> isClosed s' = isClosed s
           \<and> (closed s \<longrightarrow> closed s')"
proof (cases e)
  case AppReceive
  with assms show ?thesis by (cases "ch s") auto
next
  case (AppCallback i err)
  with assms show ?thesis by (auto split: if_splits)
qed (use assms in \<open>cases "pc s"; simp add: Let_def
       split: if_splits sum.splits create_result.splits option.splits; fastforce\<close>)+

lemma inv_close_frame:
  assumes "inv_close s" and "\<not> is_close_event e" and "step st e s = Some (s', as)"
  shows "inv_close s'"
proof -
  from step_frame_close[OF assms(2,3)]
  have f: "closers s' = closers s" "mu s' = mu s" "isClosed s' = isClosed s"
    "closed s \<longrightarrow> closed s'" by simp_all
  from assms(1) f(4) show ?thesis unfolding inv_close_def f(1-3) by blast
qed

lemma inv_closeD:
  assumes "inv_close s"
  shows "(closers s k = Locked \<or> closers s k = AwaitClosed) \<longleftrightarrow> mu s = Some k"
    and "closers s k = CloseReturned r \<Longrightarrow> r = None \<and> closed s"
    and "isClosed s \<Longrightarrow> closed s \<or> (\<exists>j. closers s j = AwaitClosed)"
  using assms unfolding inv_close_def by blast+

lemma inv_close_CloseCall:
  assumes inv: "inv_close s" and st: "step st (CloseCall k) s = Some (s', as)"
  shows "inv_close s'"
proof -
  from st have pre: "closers s k = NotCalled \<or> (\<exists>r. closers s k = CloseReturned r)"
    and s': "s' = s\<lparr>closers := (closers s)(k := AtLock)\<rparr>"
    by (cases "closers s k"; simp)+
  from pre inv_closeD(1)[OF inv, of k] have muk: "mu s \<noteq> Some k" by auto
  have a: "\<And>j. ((closers s' j = Locked \<or> closers s' j = AwaitClosed) \<longleftrightarrow> mu s' = Some j)"
    using inv_closeD(1)[OF inv] muk unfolding s' by simp
  have b: "\<And>j r. closers s' j = CloseReturned r \<Longrightarrow> r = None \<and> closed s'"
    using inv_closeD(2)[OF inv] unfolding s' by (simp split: if_splits)
  have c: "isClosed s' \<Longrightarrow> closed s' \<or> (\<exists>j. closers s' j = AwaitClosed)"
  proof -
    assume "isClosed s'"
    then have "isClosed s" unfolding s' by simp
    from inv_closeD(3)[OF inv this] show ?thesis
    proof
      assume "closed s" then show ?thesis unfolding s' by simp
    next
      assume "\<exists>j. closers s j = AwaitClosed"
      then obtain j where j: "closers s j = AwaitClosed" ..
      with pre have "j \<noteq> k" by auto
      with j have "closers s' j = AwaitClosed" unfolding s' by simp
      then show ?thesis by blast
    qed
  qed
  from a b c show ?thesis unfolding inv_close_def by blast
qed

lemma inv_close_CloseLock:
  assumes inv: "inv_close s" and st: "step st (CloseLock k) s = Some (s', as)"
  shows "inv_close s'"
proof -
  from st have pre: "closers s k = AtLock" "mu s = None"
    and s': "s' = s\<lparr>mu := Some k, closers := (closers s)(k := Locked)\<rparr>"
    by (cases "closers s k"; simp split: if_splits)+
  from inv_closeD(1)[OF inv] pre
  have none: "\<And>j. closers s j \<noteq> Locked \<and> closers s j \<noteq> AwaitClosed" by simp
  have a: "\<And>j. ((closers s' j = Locked \<or> closers s' j = AwaitClosed) \<longleftrightarrow> mu s' = Some j)"
    using none unfolding s' by auto
  have b: "\<And>j r. closers s' j = CloseReturned r \<Longrightarrow> r = None \<and> closed s'"
    using inv_closeD(2)[OF inv] unfolding s' by (simp split: if_splits)
  have c: "isClosed s' \<Longrightarrow> closed s' \<or> (\<exists>j. closers s' j = AwaitClosed)"
    using inv_closeD(3)[OF inv] none unfolding s' by auto
  from a b c show ?thesis unfolding inv_close_def by blast
qed

lemma inv_close_CloseTest:
  assumes inv: "inv_close s" and st: "step st (CloseTest k) s = Some (s', as)"
  shows "inv_close s'"
proof -
  from st have pre: "closers s k = Locked" by (cases "closers s k"; simp)
  with inv_closeD(1)[OF inv, of k] have muk: "mu s = Some k" by simp
  with inv_closeD(1)[OF inv]
  have others: "\<And>j. j \<noteq> k \<Longrightarrow> closers s j \<noteq> Locked \<and> closers s j \<noteq> AwaitClosed"
    by (metis option.inject)
  show ?thesis
  proof (cases "isClosed s")
    case True
    with st pre have s': "s' = s\<lparr>mu := None, closers := (closers s)(k := CloseReturned None)\<rparr>"
      by simp
    have cl: "closed s"
    proof (rule ccontr)
      assume "\<not> closed s"
      with inv_closeD(3)[OF inv True] obtain j where j: "closers s j = AwaitClosed" by blast
      with pre have "j \<noteq> k" by auto
      from others[OF this] j show False by simp
    qed
    have a: "\<And>j. ((closers s' j = Locked \<or> closers s' j = AwaitClosed) \<longleftrightarrow> mu s' = Some j)"
      using others unfolding s' by auto
    have b: "\<And>j r. closers s' j = CloseReturned r \<Longrightarrow> r = None \<and> closed s'"
      using inv_closeD(2)[OF inv] cl unfolding s' by (simp split: if_splits)
    have c: "isClosed s' \<Longrightarrow> closed s' \<or> (\<exists>j. closers s' j = AwaitClosed)"
      using cl unfolding s' by simp
    from a b c show ?thesis unfolding inv_close_def by blast
  next
    case False
    with st pre have s': "s' = s\<lparr>isClosed := True, closers := (closers s)(k := AwaitClosed)\<rparr>"
      by simp
    have a: "\<And>j. ((closers s' j = Locked \<or> closers s' j = AwaitClosed) \<longleftrightarrow> mu s' = Some j)"
      using others muk unfolding s' by auto
    have b: "\<And>j r. closers s' j = CloseReturned r \<Longrightarrow> r = None \<and> closed s'"
      using inv_closeD(2)[OF inv] unfolding s' by (simp split: if_splits)
    have c: "isClosed s' \<Longrightarrow> closed s' \<or> (\<exists>j. closers s' j = AwaitClosed)"
      unfolding s' by auto
    from a b c show ?thesis unfolding inv_close_def by blast
  qed
qed

lemma inv_close_CloseRecv:
  assumes inv: "inv_close s" and st: "step st (CloseRecv k) s = Some (s', as)"
  shows "inv_close s'"
proof -
  from st have pre: "closers s k = AwaitClosed" "closed s"
    and s': "s' = s\<lparr>mu := None, closers := (closers s)(k := CloseReturned None)\<rparr>"
    by (cases "closers s k"; simp split: if_splits)+
  from pre inv_closeD(1)[OF inv, of k] have muk: "mu s = Some k" by simp
  with inv_closeD(1)[OF inv]
  have others: "\<And>j. j \<noteq> k \<Longrightarrow> closers s j \<noteq> Locked \<and> closers s j \<noteq> AwaitClosed"
    by (metis option.inject)
  have a: "\<And>j. ((closers s' j = Locked \<or> closers s' j = AwaitClosed) \<longleftrightarrow> mu s' = Some j)"
    using others unfolding s' by auto
  have b: "\<And>j r. closers s' j = CloseReturned r \<Longrightarrow> r = None \<and> closed s'"
    using inv_closeD(2)[OF inv] pre(2) unfolding s' by (simp split: if_splits)
  have c: "isClosed s' \<Longrightarrow> closed s' \<or> (\<exists>j. closers s' j = AwaitClosed)"
    using pre(2) unfolding s' by simp
  from a b c show ?thesis unfolding inv_close_def by blast
qed

lemma inv_close_step:
  assumes "inv_close s" and "step st e s = Some (s', as)"
  shows "inv_close s'"
proof (cases "is_close_event e")
  case False
  from assms(1) False assms(2) show ?thesis by (rule inv_close_frame)
next
  case True
  then consider k where "e = CloseCall k" | k where "e = CloseLock k"
    | k where "e = CloseTest k" | k where "e = CloseRecv k"
    by (cases e) simp_all
  then show ?thesis
  proof cases
    case 1
    with assms show ?thesis by (blast intro: inv_close_CloseCall)
  next
    case 2
    with assms show ?thesis by (blast intro: inv_close_CloseLock)
  next
    case 3
    with assms show ?thesis by (blast intro: inv_close_CloseTest)
  next
    case 4
    with assms show ?thesis by (blast intro: inv_close_CloseRecv)
  qed
qed

lemma inv_init: "inv init"
  by (simp add: inv_def inv_eng_def inv_close_def init_def)

lemma inv_run: "inv s \<Longrightarrow> run st es s = Some (s', as) \<Longrightarrow> inv s'"
proof (induction es arbitrary: s as)
  case Nil
  then show ?case by simp
next
  case (Cons e es)
  from Cons.prems(2) obtain s1 as1 bs where
    e: "step st e s = Some (s1, as1)" and r: "run st es s1 = Some (s', bs)"
    by (auto split: option.splits)
  from Cons.prems(1) e have "inv s1"
    by (auto simp: inv_def intro: inv_eng_step inv_close_step)
  from Cons.IH[OF this r] show ?case .
qed

lemma inv_gen_init: "inv_gen init"
  by (simp add: inv_gen_def init_def)

lemma inv_gen_step:
  assumes "inv_gen s" and "step st e s = Some (s', as)"
  shows "inv_gen s'"
proof (cases e)
  case AppReceive
  with assms show ?thesis
    by (cases "ch s") (auto simp: inv_gen_def)
next
  case (AppCallback i err)
  with assms show ?thesis
    by (auto simp: inv_gen_def split: if_splits)
next
  case (CloseCall k)
  with assms show ?thesis
    by (cases "closers s k"; simp add: inv_gen_def split: if_splits; fastforce)
next
  case (CloseLock k)
  with assms show ?thesis
    by (cases "closers s k"; simp add: inv_gen_def split: if_splits; fastforce)
next
  case (CloseTest k)
  with assms show ?thesis
    by (cases "closers s k"; simp add: inv_gen_def split: if_splits; fastforce)
next
  case (CloseRecv k)
  with assms show ?thesis
    by (cases "closers s k"; simp add: inv_gen_def split: if_splits; fastforce)
qed (use assms in \<open>cases "pc s"; simp add: Let_def inv_gen_def
       split: if_splits sum.splits create_result.splits option.splits; fastforce\<close>)+

lemma inv_gen_run: "inv_gen s \<Longrightarrow> run st es s = Some (s', as) \<Longrightarrow> inv_gen s'"
proof (induction es arbitrary: s as)
  case Nil
  then show ?case by simp
next
  case (Cons e es)
  from Cons.prems(2) obtain s1 as1 bs where
    e: "step st e s = Some (s1, as1)" and r: "run st es s1 = Some (s', bs)"
    by (auto split: option.splits)
  from Cons.IH[OF inv_gen_step[OF Cons.prems(1) e] r] show ?case .
qed

section \<open>The traffic of a run\<close>

lemma run_append:
  "run st (es @ fs) s =
     (case run st es s of
        None \<Rightarrow> None
      | Some (s1, as) \<Rightarrow>
          (case run st fs s1 of
             None \<Rightarrow> None
           | Some (s2, bs) \<Rightarrow> Some (s2, as @ bs)))"
  by (induction es arbitrary: s) (auto split: option.splits)

lemma run_snocE:
  assumes "run st (es @ [e]) s = Some (s', as)"
  obtains s1 as1 bs where "run st es s = Some (s1, as1)" and "step st e s1 = Some (s', bs)"
    and "as = as1 @ bs"
  using assms by (auto simp: run_append split: option.splits)

lemma sends_append: "sends (as @ bs) = sends as @ sends bs"
  by (simp add: sends_def)

lemma add_and_send_append: "add_and_send (as @ bs) = add_and_send as @ add_and_send bs"
  by (simp add: add_and_send_def)

lemma received_snoc: "received (es @ [e]) = received es @ delivered e"
  by (simp add: received_def)

lemma completed_snoc: "completed (es @ [e]) = completed es + completes e"
  by (simp add: completed_def)

lemma step_traffic:
  assumes "step st e s = Some (s', as)"
  shows "pending (pc s) @ map (\<lambda>d. \<lparr>msg = d, host = hostname st, queue = Queue (cfg st),
              callback = generation s\<rparr>) (delivered e) = sends as @ pending (pc s')
       \<and> map (\<lambda>m. Add 1) (pending (pc s)) @ add_and_send as
            = concat (map (\<lambda>m. [Add 1, Send m]) (sends as)) @ map (\<lambda>m. Add 1) (pending (pc s'))
       \<and> length (ch s) + length (held s) + length (sends as)
            = length (ch s') + length (held s') + completes e"
proof (cases e)
  case AppReceive
  with assms show ?thesis
    by (cases "ch s") (auto simp: sends_def add_and_send_def)
next
  case (AppCallback i err)
  with assms show ?thesis
    by (auto simp: sends_def add_and_send_def min_def split: if_splits)
next
  case (CloseCall k)
  with assms show ?thesis
    by (cases "closers s k"; simp add: sends_def add_and_send_def split: if_splits; fastforce)
next
  case (CloseLock k)
  with assms show ?thesis
    by (cases "closers s k"; simp add: sends_def add_and_send_def split: if_splits; fastforce)
next
  case (CloseTest k)
  with assms show ?thesis
    by (cases "closers s k"; simp add: sends_def add_and_send_def split: if_splits; fastforce)
next
  case (CloseRecv k)
  with assms show ?thesis
    by (cases "closers s k"; simp add: sends_def add_and_send_def split: if_splits; fastforce)
qed (use assms in \<open>cases "pc s"; simp add: Let_def sends_def add_and_send_def
       split: if_splits sum.splits create_result.splits option.splits; fastforce\<close>)+

lemma run_traffic:
  assumes "run st es init = Some (s, as)"
  shows "map msg (sends as @ pending (pc s)) = received es
       \<and> (\<forall>m \<in> set (sends as @ pending (pc s)). envelope_ok st m)
       \<and> add_and_send as
            = concat (map (\<lambda>m. [Add 1, Send m]) (sends as)) @ map (\<lambda>m. Add 1) (pending (pc s))
       \<and> length (sends as) = length (ch s) + length (held s) + completed es"
  using assms
proof (induction es arbitrary: s as rule: rev_induct)
  case Nil
  then show ?case
    by (auto simp: init_def sends_def received_def add_and_send_def completed_def)
next
  case (snoc e es)
  from snoc.prems obtain s1 as1 bs where
    r: "run st es init = Some (s1, as1)" and e: "step st e s1 = Some (s, bs)"
    and as: "as = as1 @ bs"
    by (rule run_snocE)
  note IH = snoc.IH[OF r]
  note T = step_traffic[OF e]
  let ?env = "\<lambda>d. \<lparr>msg = d, host = hostname st, queue = Queue (cfg st),
                   callback = generation s1\<rparr>"
  have t1: "pending (pc s1) @ map ?env (delivered e) = sends bs @ pending (pc s)"
    using T by blast
  have "map msg (sends as @ pending (pc s))
      = map msg (sends as1) @ map msg (sends bs @ pending (pc s))"
    by (simp add: as sends_append)
  also have "\<dots> = map msg (sends as1) @ map msg (pending (pc s1) @ map ?env (delivered e))"
    by (simp only: t1)
  also have "\<dots> = map msg (sends as1 @ pending (pc s1)) @ delivered e"
    by (simp add: comp_def)
  also have "\<dots> = received (es @ [e])"
    using IH by (simp add: received_snoc)
  finally have c1: "map msg (sends as @ pending (pc s)) = received (es @ [e])" .
  have "set (sends as @ pending (pc s))
      = set (sends as1) \<union> set (sends bs @ pending (pc s))"
    by (simp add: as sends_append)
  also have "\<dots> = set (sends as1) \<union> set (pending (pc s1) @ map ?env (delivered e))"
    by (simp only: t1)
  finally have c2: "\<forall>m \<in> set (sends as @ pending (pc s)). envelope_ok st m"
    using IH by (auto simp: envelope_ok_def)
  have "add_and_send as = add_and_send as1 @ add_and_send bs"
    by (simp add: as add_and_send_append)
  also have "\<dots> = concat (map (\<lambda>m. [Add 1, Send m]) (sends as1))
        @ (map (\<lambda>m. Add 1) (pending (pc s1)) @ add_and_send bs)"
    using IH by simp
  also have "map (\<lambda>m. Add 1) (pending (pc s1)) @ add_and_send bs
      = concat (map (\<lambda>m. [Add 1, Send m]) (sends bs)) @ map (\<lambda>m. Add 1) (pending (pc s))"
    using T by blast
  finally have c3: "add_and_send as
      = concat (map (\<lambda>m. [Add 1, Send m]) (sends as)) @ map (\<lambda>m. Add 1) (pending (pc s))"
    by (simp add: as sends_append)
  have "length (ch s1) + length (held s1) + length (sends bs)
      = length (ch s) + length (held s) + completes e"
    using T by blast
  with IH have c4: "length (sends as) = length (ch s) + length (held s) + completed (es @ [e])"
    by (simp add: as sends_append completed_snoc)
  from c1 c2 c3 c4 show ?case by blast
qed

lemma step_after_close:
  assumes "ch_closed_at (pc s)" and "step st e s = Some (s', as)"
  shows "ch_closed_at (pc s') \<and> sends as = [] \<and> delivered e = []"
proof (cases e)
  case AppReceive
  with assms show ?thesis
    by (cases "ch s") (auto simp: sends_def)
next
  case (AppCallback i err)
  with assms show ?thesis
    by (auto simp: sends_def split: if_splits)
next
  case (CloseCall k)
  with assms show ?thesis
    by (cases "closers s k"; simp add: sends_def split: if_splits; fastforce)
next
  case (CloseLock k)
  with assms show ?thesis
    by (cases "closers s k"; simp add: sends_def split: if_splits; fastforce)
next
  case (CloseTest k)
  with assms show ?thesis
    by (cases "closers s k"; simp add: sends_def split: if_splits; fastforce)
next
  case (CloseRecv k)
  with assms show ?thesis
    by (cases "closers s k"; simp add: sends_def split: if_splits; fastforce)
qed (use assms in \<open>cases "pc s"; simp add: Let_def sends_def
       split: if_splits sum.splits create_result.splits option.splits; fastforce\<close>)+

lemma run_after_close:
  "ch_closed_at (pc s) \<Longrightarrow> run st es s = Some (s', as)
     \<Longrightarrow> ch_closed_at (pc s') \<and> sends as = [] \<and> received es = []"
proof (induction es arbitrary: s as)
  case Nil
  then show ?case by (simp add: sends_def received_def)
next
  case (Cons e es)
  from Cons.prems(2) obtain s1 as1 bs where
    e: "step st e s = Some (s1, as1)" and r: "run st es s1 = Some (s', bs)"
    and as: "as = as1 @ bs"
    by (auto split: option.splits)
  from step_after_close[OF Cons.prems(1) e] Cons.IH[OF _ r]
  show ?case by (simp add: as sends_append received_def)
qed

lemma step_last_use:
  assumes "step st e s = Some (s', as)"
  shows "lastTimeConnectionUsed s'
           = (case stamps e of Some now \<Rightarrow> now | None \<Rightarrow> lastTimeConnectionUsed s)"
proof (cases e)
  case AppReceive
  with assms show ?thesis
    by (cases "ch s") auto
next
  case (AppCallback i err)
  with assms show ?thesis
    by (auto split: if_splits)
next
  case (CloseCall k)
  with assms show ?thesis
    by (cases "closers s k"; simp split: if_splits; fastforce)
next
  case (CloseLock k)
  with assms show ?thesis
    by (cases "closers s k"; simp split: if_splits; fastforce)
next
  case (CloseTest k)
  with assms show ?thesis
    by (cases "closers s k"; simp split: if_splits; fastforce)
next
  case (CloseRecv k)
  with assms show ?thesis
    by (cases "closers s k"; simp split: if_splits; fastforce)
qed (use assms in \<open>cases "pc s"; simp add: Let_def
       split: if_splits sum.splits create_result.splits option.splits; fastforce\<close>)+

lemma run_last_use:
  assumes "run st es init = Some (s, as)"
  shows "lastTimeConnectionUsed s = last_use es"
  using assms
proof (induction es arbitrary: s as rule: rev_induct)
  case Nil
  then show ?case by (auto simp: init_def last_use_def)
next
  case (snoc e es)
  from snoc.prems obtain s1 as1 bs where
    r: "run st es init = Some (s1, as1)" and e: "step st e s1 = Some (s, bs)"
    by (rule run_snocE)
  from step_last_use[OF e] snoc.IH[OF r] show ?case
    by (simp add: last_use_def split: option.splits)
qed

section \<open>Failed attempts to acquire, one after the other\<close>

lemma run_attempt:
  assumes "pc s = ReconnectLoop" and "\<not> isClosed s"
  shows "run st (attempt f) s = Some (after_attempt f s, attempt_actions st f)"
  using assms by (cases f) (simp_all add: second_def)

lemma after_attempt_frame:
  "pc (after_attempt f s) = pc s" "isClosed (after_attempt f s) = isClosed s"
  by (cases f; simp)+

lemma sleeps_attempt: "sleeps (attempt_actions st f) = [1000000000]"
  by (cases f) (simp_all add: sleeps_def)

lemma sleeps_append: "sleeps (as @ bs) = sleeps as @ sleeps bs"
  by (simp add: sleeps_def)

lemma run_attempts:
  assumes "pc s = ReconnectLoop" and "\<not> isClosed s"
  shows "run st (concat (map attempt fs)) s
           = Some (fold after_attempt fs s, concat (map (attempt_actions st) fs))"
  using assms
proof (induction fs arbitrary: s)
  case Nil
  then show ?case by simp
next
  case (Cons f fs)
  from Cons.prems have "pc (after_attempt f s) = ReconnectLoop" "\<not> isClosed (after_attempt f s)"
    by (simp_all add: after_attempt_frame)
  from Cons.IH[OF this] run_attempt[OF Cons.prems, of st f]
  show ?case by (simp add: run_append)
qed

lemma fold_after_attempt_frame:
  "pc (fold after_attempt fs s) = pc s \<and> isClosed (fold after_attempt fs s) = isClosed s"
  by (induction fs arbitrary: s) (simp_all add: after_attempt_frame)

section \<open>The concrete runs\<close>

lemmas scenario_defs = st0_def d1_def d2_def d3_def three_deliveries_def drain_and_close_def init_def

lemma run_to_select:
  "run st0 to_select init =
     Some (selecting,
       [LogError ''connectionsManager.Get'', Get_call (connCfg st0) ''worker'',
        LogError ''connectionsManager.CreateConsumerChannel'',
        CreateConsumerChannel_call (Some 3) ''worker'' ''orders'' 0 1,
        NotifyClose_channel 4 (ChannelNotify 1), NotifyClose_conn (Some 3) (ConnNotify 1)])"
  by (simp add: to_select_def selecting_def st0_def init_def fun_eq_iff)

lemma run_to_select_shared:
  "run st0 to_select_shared init =
     Some (selecting_shared,
       [LogError ''connectionsManager.Get'', Get_call (connCfg st0) ''worker'',
        LogError ''connectionsManager.CreateConsumerChannel'',
        CreateConsumerChannel_call (Some 3) ''worker'' ''orders'' 0 1,
        NotifyClose_channel 4 (ChannelNotify 1)])"
  by (simp add: to_select_shared_def selecting_shared_def selecting_def st0_def init_def
        fun_eq_iff)

lemma run_old_envelope_held:
  "map_option fst (run st0 old_envelope_held init) = Some holding"
  by (simp add: old_envelope_held_def to_select_def holding_def st0_def d1_def init_def
        fun_eq_iff)

section \<open>Properties of the consumer engine\<close>

text \<open>
  Claim C1. In every run of the consumer, whenever the output channel \<open>c.ch\<close> is closed:
  the in-flight counter is zero, no envelope is left in the channel or in the hands of
  the application, the completion callback was called once for every envelope ever sent
  (as many completions as sends), \<open>start\<close> is past its loops (at line 165 or returned),
  and however the run goes on, no envelope is sent and no delivery is read any more. And
  whenever a call of \<open>Close\<close> has returned, the done-signal \<open>c.closed\<close> is closed, the
  output channel is closed, the counter is zero and \<open>start\<close> has returned.
\<close>

theorem output_closed_only_after_drain:
  assumes "run st es init = Some (s, as)"
  shows "(ch_closed s \<longrightarrow>
            itemsInProgress s = 0 \<and> ch s = [] \<and> held s = []
          \<and> length (sends as) = completed es
          \<and> (pc s = CloseClosed \<or> pc s = Returned)
          \<and> (\<forall>fs s' bs. run st fs s = Some (s', bs) \<longrightarrow> sends bs = [] \<and> received fs = []))
       \<and> (\<forall>k r. closers s k = CloseReturned r \<longrightarrow>
            closed s \<and> ch_closed s \<and> itemsInProgress s = 0 \<and> pc s = Returned)"
proof -
  from inv_run[OF inv_init assms] have e: "inv_eng s" and c: "inv_close s"
    by (simp_all add: inv_def)
  from e have items: "itemsInProgress s = int (length (ch s) + length (held s) + sending (pc s))"
    and drained: "drained (pc s) \<Longrightarrow> itemsInProgress s = 0"
    and chc: "ch_closed s = ch_closed_at (pc s)"
    and cl: "closed s = (pc s = Returned)"
    by (simp_all add: inv_eng_def)
  have first: "itemsInProgress s = 0 \<and> ch s = [] \<and> held s = []
          \<and> length (sends as) = completed es
          \<and> (pc s = CloseClosed \<or> pc s = Returned)
          \<and> (\<forall>fs s' bs. run st fs s = Some (s', bs) \<longrightarrow> sends bs = [] \<and> received fs = [])"
    if "ch_closed s"
  proof -
    from that chc have at: "ch_closed_at (pc s)" by simp
    then have pcs: "pc s = CloseClosed \<or> pc s = Returned" by (cases "pc s") simp_all
    then have "drained (pc s)" by auto
    from drained[OF this] have z: "itemsInProgress s = 0" .
    with items have "length (ch s) + length (held s) + sending (pc s) = 0" by arith
    then have emp: "ch s = []" "held s = []" by simp_all
    from run_traffic[OF assms] emp have "length (sends as) = completed es" by simp
    moreover from at have "\<forall>fs s' bs. run st fs s = Some (s', bs) \<longrightarrow> sends bs = [] \<and> received fs = []"
      using run_after_close by blast
    ultimately show ?thesis using z emp pcs by blast
  qed
  have second: "closed s \<and> ch_closed s \<and> itemsInProgress s = 0 \<and> pc s = Returned"
    if "closers s k = CloseReturned r" for k r
  proof -
    from inv_closeD(2)[OF c that] have "closed s" by simp
    with cl have "pc s = Returned" by simp
    with chc drained \<open>closed s\<close> show ?thesis by simp
  qed
  from first second show ?thesis by blast
qed

text \<open>
  The run \<open>drain_and_close\<close>: three envelopes sent, three completed, then the channel
  closed and \<open>Close\<close> back.
\<close>

theorem output_closed_only_after_drain_witness:
  "\<exists>s as. run st0 drain_and_close init = Some (s, as)
      \<and> ch_closed s \<and> closers s 0 = CloseReturned None
      \<and> itemsInProgress s = 0 \<and> held s = [] \<and> length (sends as) = 3
      \<and> completed drain_and_close = 3 \<and> closed s \<and> pc s = Returned"
proof -
  have "\<exists>s as. run st0 drain_and_close init = Some (s, as)
      \<and> ch_closed s \<and> closers s 0 = CloseReturned None"
    by (simp add: scenario_defs)
  then obtain s as where r: "run st0 drain_and_close init = Some (s, as)"
    and c: "ch_closed s" and k: "closers s 0 = CloseReturned None"
    by blast
  have n: "completed drain_and_close = 3"
    by (simp add: scenario_defs completed_def)
  from output_closed_only_after_drain[OF r] c k n show ?thesis
    using r by auto
qed

text \<open>
  Claim C2. In every run in which a call of \<open>Close\<close> has returned: it returned nil, and
  so did every other call that has returned; the consumer is in its terminal state (the
  flag set, \<open>c.closed\<close> and \<open>c.ch\<close> closed, \<open>start\<close> returned). A caller that then holds
  the mutex finds the flag set and returns nil at once: nothing changes but the mutex,
  which it releases, and nothing is done to the outside. A whole second call, made while
  the mutex is free, leaves the state as it was, but for the record that this caller has
  returned nil. Calls are serialised: the mutex is held exactly by the one caller between
  its lock and its return, and no caller gets it while it is held.
\<close>

theorem Close_idempotent:
  assumes "run st es init = Some (s, as)" and "closers s j = CloseReturned r"
  shows "r = None \<and> isClosed s \<and> closed s \<and> ch_closed s \<and> pc s = Returned
       \<and> (\<forall>k. closers s k = Locked \<longrightarrow>
             step st (CloseTest k) s
               = Some (s\<lparr>mu := None, closers := (closers s)(k := CloseReturned None)\<rparr>, []))
       \<and> (\<forall>k. mu s = None \<and> closers s k \<noteq> AtLock \<longrightarrow>
             run st [CloseCall k, CloseLock k, CloseTest k] s
               = Some (s\<lparr>closers := (closers s)(k := CloseReturned None)\<rparr>, []))
       \<and> (\<forall>k. (closers s k = Locked \<or> closers s k = AwaitClosed) \<longleftrightarrow> mu s = Some k)
       \<and> (\<forall>k. mu s \<noteq> None \<longrightarrow> step st (CloseLock k) s = None)
       \<and> (\<forall>k r'. closers s k = CloseReturned r' \<longrightarrow> r' = None)"
proof -
  from inv_run[OF inv_init assms(1)] have e: "inv_eng s" and c: "inv_close s"
    by (simp_all add: inv_def)
  from inv_closeD(2)[OF c assms(2)] have r: "r = None" and cl: "closed s" by simp_all
  from e cl have p: "pc s = Returned" by (simp add: inv_eng_def)
  with e have ic: "isClosed s" and cc: "ch_closed s" by (simp_all add: inv_eng_def)
  have t: "step st (CloseTest k) s
               = Some (s\<lparr>mu := None, closers := (closers s)(k := CloseReturned None)\<rparr>, [])"
    if "closers s k = Locked" for k
    using that ic by simp
  have q: "run st [CloseCall k, CloseLock k, CloseTest k] s
               = Some (s\<lparr>closers := (closers s)(k := CloseReturned None)\<rparr>, [])"
    if "mu s = None \<and> closers s k \<noteq> AtLock" for k
  proof -
    from that inv_closeD(1)[OF c, of k]
    have "closers s k = NotCalled \<or> (\<exists>r'. closers s k = CloseReturned r')"
      by (cases "closers s k") simp_all
    with that ic show ?thesis by auto
  qed
  have m: "(closers s k = Locked \<or> closers s k = AwaitClosed) \<longleftrightarrow> mu s = Some k" for k
    by (rule inv_closeD(1)[OF c])
  have l: "step st (CloseLock k) s = None" if "mu s \<noteq> None" for k
    using that by (cases "closers s k") simp_all
  have n: "r' = None" if "closers s k = CloseReturned r'" for k r'
    using inv_closeD(2)[OF c that] by simp
  from r ic cl cc p t q m l n show ?thesis by blast
qed

text \<open>
  The run \<open>close_twice\<close>: the call of caller 0 has returned, and caller 1, who called
  while caller 0 was waiting, now returns nil without any effect.
\<close>

theorem Close_idempotent_witness:
  "\<exists>s as. run st0 close_twice init = Some (s, as)
      \<and> closers s 0 = CloseReturned None \<and> closers s 1 = Locked \<and> pc s = Returned
      \<and> step st0 (CloseTest 1) s
            = Some (s\<lparr>mu := None, closers := (closers s)(1 := CloseReturned None)\<rparr>, [])"
proof -
  have "\<exists>s as. run st0 close_twice init = Some (s, as)
      \<and> closers s 0 = CloseReturned None \<and> closers s 1 = Locked"
    by (simp add: close_twice_def to_select_def st0_def init_def heartbeatReconnectionInterval_def
          second_def time_Since_def)
  then obtain s as where r: "run st0 close_twice init = Some (s, as)"
    and k: "closers s 0 = CloseReturned None" and l: "closers s 1 = Locked"
    by blast
  note T = Close_idempotent[OF r k]
  from T have p: "pc s = Returned" by blast
  from T[THEN conjunct2, THEN conjunct2, THEN conjunct2, THEN conjunct2, THEN conjunct2,
         THEN conjunct1, THEN spec, THEN mp, OF l]
  have "step st0 (CloseTest 1) s
            = Some (s\<lparr>mu := None, closers := (closers s)(1 := CloseReturned None)\<rparr>, [])" .
  with r k l p show ?thesis by blast
qed

text \<open>
  Claim C3. In every run, the deliveries of the envelopes sent on \<open>c.ch\<close>, in the order
  of the sends and followed by the delivery whose send is still pending, are exactly the
  deliveries read off the broker's stream, in the order they were read; every envelope
  carries the consumer's host and queue. The increments of the wait group and the sends
  alternate, an increment of 1 before each send. One step at a time: reading a delivery
  adds 1 to the counter and leaves \<open>start\<close> at the send of the envelope of that
  delivery, and the send itself leaves the counter as it is.
\<close>

theorem deliveries_forwarded_in_order:
  assumes "run st es init = Some (s, as)"
  shows "map msg (sends as) @ map msg (pending (pc s)) = received es
       \<and> (\<forall>m \<in> set (sends as). host m = hostname st \<and> queue m = Queue (cfg st))
       \<and> add_and_send as
            = concat (map (\<lambda>m. [Add 1, Send m]) (sends as)) @ map (\<lambda>m. Add 1) (pending (pc s))
       \<and> (\<forall>d now s' bs. step st (DeliveryRecv d True now) s = Some (s', bs) \<longrightarrow>
             itemsInProgress s' = itemsInProgress s + 1 \<and> bs = [Add 1]
           \<and> (\<exists>m. pc s' = Sending m \<and> msg m = d))
       \<and> (\<forall>m s' bs. pc s = Sending m \<and> (step st SendBuffered s = Some (s', bs)
                                         \<or> step st SendHandoff s = Some (s', bs)) \<longrightarrow>
             itemsInProgress s' = itemsInProgress s \<and> bs = [Send m])"
proof -
  from run_traffic[OF assms]
  have a: "map msg (sends as) @ map msg (pending (pc s)) = received es"
    and b: "\<forall>m \<in> set (sends as). host m = hostname st \<and> queue m = Queue (cfg st)"
    and c: "add_and_send as
            = concat (map (\<lambda>m. [Add 1, Send m]) (sends as)) @ map (\<lambda>m. Add 1) (pending (pc s))"
    by (simp_all add: envelope_ok_def)
  have d: "itemsInProgress s' = itemsInProgress s + 1 \<and> bs = [Add 1]
           \<and> (\<exists>m. pc s' = Sending m \<and> msg m = d)"
    if "step st (DeliveryRecv d True now) s = Some (s', bs)" for d now s' bs
    using that by (cases "pc s"; cases "deliveries s"; simp; fastforce)
  have e: "itemsInProgress s' = itemsInProgress s \<and> bs = [Send m]"
    if "pc s = Sending m \<and> (step st SendBuffered s = Some (s', bs)
                                         \<or> step st SendHandoff s = Some (s', bs))" for m s' bs
    using that by (auto split: if_splits)
  from a b c d e show ?thesis by blast
qed

text \<open>
  The run \<open>three_deliveries\<close>: the envelopes of \<open>d1\<close>, \<open>d2\<close>, \<open>d3\<close> are sent in this
  order, each after an increment.
\<close>

theorem deliveries_forwarded_in_order_witness:
  "\<exists>s as. run st0 three_deliveries init = Some (s, as)
      \<and> map msg (sends as) = [d1, d2, d3] \<and> received three_deliveries = [d1, d2, d3]
      \<and> add_and_send as = [Add 1, Send (sends as ! 0), Add 1, Send (sends as ! 1),
                             Add 1, Send (sends as ! 2)]"
proof -
  have "\<exists>s as. run st0 three_deliveries init = Some (s, as) \<and> pc s = ServeLoop
          \<and> length (sends as) = 3"
    by (simp add: scenario_defs sends_def)
  then obtain s as where r: "run st0 three_deliveries init = Some (s, as)"
    and p: "pc s = ServeLoop" and l: "length (sends as) = 3"
    by blast
  have rc: "received three_deliveries = [d1, d2, d3]"
    by (simp add: three_deliveries_def received_def)
  from l obtain m1 m2 m3 where ms: "sends as = [m1, m2, m3]"
    by (auto simp: length_Suc_conv numeral_3_eq_3)
  from deliveries_forwarded_in_order[OF r] p rc ms
  have "map msg (sends as) = [d1, d2, d3]"
    and "add_and_send as = [Add 1, Send m1, Add 1, Send m2, Add 1, Send m3]"
    by simp_all
  with r rc ms show ?thesis by simp
qed

text \<open>
  Claim C4, as amended. In every run, when \<open>start\<close> is in its \<open>select\<close>, the time stamp
  \<open>lastTimeConnectionUsed\<close> is the time of the last delivery on the current channel (the
  time the channel was created, when it has delivered nothing yet). On a heartbeat tick,
  if the time since then exceeds five minutes, or the error flag of the current
  generation is set, \<open>start\<close> closes the channel through the pool, and nothing else (not
  the connection), and goes back to the head of the reconnect loop; otherwise the tick
  changes nothing. An envelope carries the callback of the generation that received its
  delivery. The flag of the current generation is set by the callback of an envelope of
  this generation called with an error: when a delivery is received, handed to the
  application and completed with an error, the next tick closes the channel, whatever the
  time. A callback called without an error, or the callback of an envelope of an earlier
  generation, leaves the flag of the current generation as it is.
\<close>

theorem heartbeat_rebuilds_stale_or_failed_channel:
  assumes "run st es init = Some (s, as)" and "pc s = Select"
  shows "heartbeatReconnectionInterval = 5 * 60 * 1000000000
       \<and> lastTimeConnectionUsed s = last_use es
       \<and> (\<forall>now. heartbeatReconnectionInterval < time_Since now (last_use es)
                  \<or> isNeedRecreateChannel s (generation s) \<longrightarrow>
            step st (HeartbeatTick now) s
              = Some (s\<lparr>pc := ReconnectLoop\<rparr>,
                  (if isNeedRecreateChannel s (generation s)
                   then [LogError ''heartbeatTicker.C''] else []) @
                  [CloseConsumerChannel (channel s)]))
       \<and> (\<forall>now. \<not> (heartbeatReconnectionInterval < time_Since now (last_use es)
                  \<or> isNeedRecreateChannel s (generation s)) \<longrightarrow>
            step st (HeartbeatTick now) s = Some (s\<lparr>pc := ServeLoop\<rparr>, []))
       \<and> channel s \<noteq> None
       \<and> (\<forall>i err s' bs. step st (AppCallback i (Some err)) s = Some (s', bs)
                  \<and> callback (held s ! i) = generation s \<longrightarrow>
            isNeedRecreateChannel s' (generation s') \<and> pc s' = Select)
       \<and> (\<forall>i err s' bs. step st (AppCallback i err) s = Some (s', bs)
                  \<and> (err = None \<or> callback (held s ! i) \<noteq> generation s) \<longrightarrow>
            isNeedRecreateChannel s' (generation s') = isNeedRecreateChannel s (generation s))
       \<and> (\<forall>d now. step st (DeliveryRecv d True now) s
              = Some (s\<lparr>lastTimeConnectionUsed := now,
                        itemsInProgress := itemsInProgress s + 1,
                        pc := Sending \<lparr>msg = d, host = hostname st, queue = Queue (cfg st),
                                       callback = generation s\<rparr>\<rparr>,
                      [Add 1]))
       \<and> (\<forall>d t1 err t2. ch s = [] \<and> \<not> isClosed s \<longrightarrow>
            (\<exists>s' bs. run st [DeliveryRecv d True t1, SendHandoff,
                             AppCallback (length (held s)) (Some err), TestClosed,
                             HeartbeatTick t2] s = Some (s', bs)
               \<and> pc s' = ReconnectLoop \<and> generation s' = generation s
               \<and> CloseConsumerChannel (channel s) \<in> set bs
               \<and> (\<forall>c. CloseConnection c \<notin> set bs)))"
proof -
  from inv_gen_run[OF inv_gen_init assms(1)] assms(2)
  have g: "channel s \<noteq> None" and dl: "deliveries s \<noteq> None"
    by (simp_all add: inv_gen_def)
  from dl obtain x where x: "deliveries s = Some x" by blast
  note u = run_last_use[OF assms(1)]
  have k: "heartbeatReconnectionInterval = 5 * 60 * 1000000000"
    by (simp add: heartbeatReconnectionInterval_def second_def)
  have a: "step st (HeartbeatTick now) s
              = Some (s\<lparr>pc := ReconnectLoop\<rparr>,
                  (if isNeedRecreateChannel s (generation s)
                   then [LogError ''heartbeatTicker.C''] else []) @
                  [CloseConsumerChannel (channel s)])"
    if "heartbeatReconnectionInterval < time_Since now (last_use es)
                  \<or> isNeedRecreateChannel s (generation s)" for now
    using that assms(2) u by simp
  have b: "step st (HeartbeatTick now) s = Some (s\<lparr>pc := ServeLoop\<rparr>, [])"
    if "\<not> (heartbeatReconnectionInterval < time_Since now (last_use es)
                  \<or> isNeedRecreateChannel s (generation s))" for now
    using that assms(2) u by simp
  have d: "isNeedRecreateChannel s' (generation s') \<and> pc s' = Select"
    if "step st (AppCallback i (Some err)) s = Some (s', bs)
                  \<and> callback (held s ! i) = generation s" for i err s' bs
    using that assms(2) by (auto split: if_splits)
  have e: "isNeedRecreateChannel s' (generation s') = isNeedRecreateChannel s (generation s)"
    if "step st (AppCallback i err) s = Some (s', bs)
                  \<and> (err = None \<or> callback (held s ! i) \<noteq> generation s)" for i err s' bs
    using that by (auto split: if_splits)
  have f: "step st (DeliveryRecv d True now) s
              = Some (s\<lparr>lastTimeConnectionUsed := now,
                        itemsInProgress := itemsInProgress s + 1,
                        pc := Sending \<lparr>msg = d, host = hostname st, queue = Queue (cfg st),
                                       callback = generation s\<rparr>\<rparr>,
                      [Add 1])" for d now
    using assms(2) x by simp
  have h: "\<exists>s' bs. run st [DeliveryRecv d True t1, SendHandoff,
                             AppCallback (length (held s)) (Some err), TestClosed,
                             HeartbeatTick t2] s = Some (s', bs)
               \<and> pc s' = ReconnectLoop \<and> generation s' = generation s
               \<and> CloseConsumerChannel (channel s) \<in> set bs
               \<and> (\<forall>c. CloseConnection c \<notin> set bs)"
    if "ch s = [] \<and> \<not> isClosed s" for d t1 err t2
    using that assms(2) x by simp
  from k u a b g d e f h show ?thesis by blast
qed

text \<open>
  The claim as it was stated fails. In the state \<open>holding\<close> the application holds an
  envelope of the first generation while the second is served. It calls the callback of
  that envelope with an error; the callback logs the error and sets the flag of the
  first generation, which \<open>start\<close> does not read any more. The heartbeat tick that
  follows changes nothing: the channel is not closed.
\<close>

theorem error_of_earlier_generation_counterexample:
  "map_option fst (run st0 old_envelope_held init) = Some holding
   \<and> step st0 (AppCallback 0 (Some (Error ''handler failed''))) holding
       = Some (lost_error, [LogError ''callback error''])
   \<and> step st0 (HeartbeatTick 400) lost_error = Some (lost_error\<lparr>pc := ServeLoop\<rparr>, [])"
  by (simp add: run_old_envelope_held)
     (simp add: holding_def lost_error_def heartbeatReconnectionInterval_def second_def
        time_Since_def fun_eq_iff)

text \<open>
  The theorem in the state \<open>selecting\<close>, whose channel was created at time 100: a tick
  one nanosecond past the five minutes closes the channel, a tick at five minutes sharp
  does nothing; and a delivery completed with an error makes the next tick close the
  channel, 200 nanoseconds after the channel was created.
\<close>

theorem heartbeat_rebuilds_stale_or_failed_channel_witness:
  "last_use to_select = 100
   \<and> step st0 (HeartbeatTick 300000000101) selecting
     = Some (selecting\<lparr>pc := ReconnectLoop\<rparr>, [CloseConsumerChannel (Some 4)])
   \<and> step st0 (HeartbeatTick 300000000100) selecting = Some (selecting\<lparr>pc := ServeLoop\<rparr>, [])
   \<and> (\<exists>s' bs. run st0 [DeliveryRecv d1 True 200, SendHandoff,
                        AppCallback 0 (Some (Error ''handler failed'')), TestClosed,
                        HeartbeatTick 300] selecting = Some (s', bs)
          \<and> pc s' = ReconnectLoop \<and> CloseConsumerChannel (Some 4) \<in> set bs)"
proof -
  have p: "pc selecting = Select" "lastTimeConnectionUsed selecting = 100"
    "\<not> isNeedRecreateChannel selecting (generation selecting)" "channel selecting = Some 4"
    "ch selecting = [] \<and> \<not> isClosed selecting" "length (held selecting) = 0"
    by (simp_all add: selecting_def)
  note T = heartbeat_rebuilds_stale_or_failed_channel[OF run_to_select p(1)]
  from T p(2) have u: "last_use to_select = 100" by simp
  have s: "heartbeatReconnectionInterval < time_Since 300000000101 (last_use to_select)
            \<or> isNeedRecreateChannel selecting (generation selecting)"
    by (simp add: u heartbeatReconnectionInterval_def second_def time_Since_def)
  have f: "\<not> (heartbeatReconnectionInterval < time_Since 300000000100 (last_use to_select)
            \<or> isNeedRecreateChannel selecting (generation selecting))"
    by (simp add: u p heartbeatReconnectionInterval_def second_def time_Since_def)
  note E = T[THEN conjunct2, THEN conjunct2, THEN conjunct2, THEN conjunct2, THEN conjunct2,
             THEN conjunct2, THEN conjunct2, THEN conjunct2,
             THEN spec, THEN spec, THEN spec, THEN spec, THEN mp, OF p(5),
             of d1 200 "Error ''handler failed''" 300]
  from E have e: "\<exists>s' bs. run st0 [DeliveryRecv d1 True 200, SendHandoff,
                        AppCallback 0 (Some (Error ''handler failed'')), TestClosed,
                        HeartbeatTick 300] selecting = Some (s', bs)
          \<and> pc s' = ReconnectLoop \<and> CloseConsumerChannel (Some 4) \<in> set bs"
    unfolding p(4,6) by blast
  from T[THEN conjunct2, THEN conjunct2, THEN conjunct1, THEN spec, THEN mp, OF s]
       T[THEN conjunct2, THEN conjunct2, THEN conjunct2, THEN conjunct1, THEN spec, THEN mp, OF f]
       p(3,4) u e
  show ?thesis by simp
qed


text \<open>
  Claim C5. In every run: the flag \<open>isNewConn\<close> is what the pool's \<open>Get\<close> reported;
  when the channel is created, \<open>start\<close> subscribes to the close-signals of the connection
  (\<open>conn.NotifyClose\<close>, leaving \<open>connClose\<close> non-nil) if and only if that flag is set;
  while the generation is served, \<open>connClose\<close> is non-nil if and only if the flag is set;
  and in the \<open>select\<close> of a generation on a shared connection the case of the connection's
  close-signal cannot be taken, whatever the signal, so it cannot restart the generation,
  while on a new connection it can be taken.
\<close>

theorem conn_close_monitored_iff_new:
  assumes "run st es init = Some (s, as)"
  shows "(\<forall>cn b s' bs. step st (GetReturns (Inr (cn, b))) s = Some (s', bs) \<longrightarrow>
            isNewConn s' = b \<and> conn s' = Some cn)
       \<and> (\<forall>chn dl now s' bs. step st (CreateReturns (Created chn dl) now) s = Some (s', bs) \<longrightarrow>
            isNewConn s' = isNewConn s
          \<and> (connClose s' \<noteq> None \<longleftrightarrow> isNewConn s)
          \<and> ((\<exists>c n. NotifyClose_conn c n \<in> set bs) \<longleftrightarrow> isNewConn s)
          \<and> (isNewConn s \<longrightarrow> conn s \<noteq> None \<and> NotifyClose_conn (conn s) (ConnNotify (generation s')) \<in> set bs))
       \<and> (serving (pc s) \<longrightarrow> (connClose s \<noteq> None \<longleftrightarrow> isNewConn s))
       \<and> (\<not> isNewConn s \<longrightarrow>
            (\<forall>closeErr isOpen. pc s = Select \<longrightarrow> step st (ConnCloseRecv closeErr isOpen) s = None))
       \<and> (isNewConn s \<longrightarrow>
            (\<forall>closeErr isOpen. pc s = Select \<longrightarrow> step st (ConnCloseRecv closeErr isOpen) s \<noteq> None))"
proof -
  from inv_gen_run[OF inv_gen_init assms] have g: "inv_gen s" .
  have a: "isNewConn s' = b \<and> conn s' = Some cn"
    if "step st (GetReturns (Inr (cn, b))) s = Some (s', bs)" for cn b s' bs
    using that by (cases "pc s"; simp; fastforce)
  have b: "isNewConn s' = isNewConn s
          \<and> (connClose s' \<noteq> None \<longleftrightarrow> isNewConn s)
          \<and> ((\<exists>c n. NotifyClose_conn c n \<in> set bs) \<longleftrightarrow> isNewConn s)
          \<and> (isNewConn s \<longrightarrow> conn s \<noteq> None \<and> NotifyClose_conn (conn s) (ConnNotify (generation s')) \<in> set bs)"
    if "step st (CreateReturns (Created chn dl) now) s = Some (s', bs)" for chn dl now s' bs
  proof -
    from that have p: "pc s = CallCreate" by (cases "pc s") simp_all
    with g have "conn s \<noteq> None" by (simp add: inv_gen_def)
    from that p have s': "isNewConn s' = isNewConn s"
      "connClose s' = (if isNewConn s then Some (ConnNotify (Suc (generation s))) else None)"
      "generation s' = Suc (generation s)"
      and bs: "bs = NotifyClose_channel chn (ChannelNotify (Suc (generation s))) #
                  (if isNewConn s then [NotifyClose_conn (conn s) (ConnNotify (Suc (generation s)))]
                   else [])"
      by (auto simp: Let_def)
    from \<open>conn s \<noteq> None\<close> show ?thesis
      unfolding s' bs by (cases "isNewConn s") simp_all
  qed
  have c: "connClose s \<noteq> None \<longleftrightarrow> isNewConn s" if "serving (pc s)"
    using g that by (simp add: inv_gen_def)
  have d: "step st (ConnCloseRecv closeErr isOpen) s = None"
    if "\<not> isNewConn s" and "pc s = Select" for closeErr isOpen
    using c that by simp
  have e: "step st (ConnCloseRecv closeErr isOpen) s \<noteq> None"
    if "isNewConn s" and "pc s = Select" for closeErr isOpen
    using c that by auto
  from a b c d e show ?thesis by blast
qed

text \<open>
  On the shared connection of \<open>selecting_shared\<close> a connection error is not received;
  on the new connection of \<open>selecting\<close> it is.
\<close>

theorem conn_close_monitored_iff_new_witness:
  "step st0 (ConnCloseRecv (Some (Error ''EOF'')) True) selecting_shared = None
   \<and> step st0 (ConnCloseRecv (Some (Error ''EOF'')) True) selecting \<noteq> None
   \<and> connClose selecting_shared = None \<and> connClose selecting \<noteq> None"
proof -
  have p: "pc selecting = Select" "isNewConn selecting"
    "pc selecting_shared = Select" "\<not> isNewConn selecting_shared"
    "serving (pc selecting)" "serving (pc selecting_shared)"
    by (simp_all add: selecting_def selecting_shared_def)
  from conn_close_monitored_iff_new[OF run_to_select] p(1,2,5)
  have a: "step st0 (ConnCloseRecv (Some (Error ''EOF'')) True) selecting \<noteq> None"
    and b: "connClose selecting \<noteq> None"
    by blast+
  from conn_close_monitored_iff_new[OF run_to_select_shared] p(3,4,6)
  have c: "step st0 (ConnCloseRecv (Some (Error ''EOF'')) True) selecting_shared = None"
    and d: "connClose selecting_shared = None"
    by blast+
  from a b c d show ?thesis by blast
qed

text \<open>
  Claim C6. In every run, when \<open>start\<close> is in its \<open>select\<close>, every value received
  on the channel's close-signal source is a fault, the nil read from the closed source
  included: the error, if there is one, is logged, a goroutine is started that drains
  the source, the channel and only the channel is closed through the pool, and \<open>start\<close>
  goes back to the head of the reconnect loop. The same holds for the connection's
  source on a new connection, where the connection and only the connection is closed
  through the pool. In particular a nil error, which is what a source closed without an
  error yields, is handled as a fault and not as success.
\<close>

theorem close_signal_is_fault:
  assumes "run st es init = Some (s, as)" and "pc s = Select"
  shows "(\<forall>closeErr isOpen. receivable closeErr isOpen \<longrightarrow>
            step st (ChannelCloseRecv closeErr isOpen) s
              = Some (s\<lparr>pc := ReconnectLoop\<rparr>,
                  (if closeErr \<noteq> None then [LogError ''rabbit consumer channel error''] else []) @
                  [Go_readAllErrors (channelClose s), CloseConsumerChannel (channel s)]))
       \<and> (\<forall>closeErr isOpen. isNewConn s \<and> receivable closeErr isOpen \<longrightarrow>
            step st (ConnCloseRecv closeErr isOpen) s
              = Some (s\<lparr>pc := ReconnectLoop\<rparr>,
                  (if closeErr \<noteq> None then [LogError ''rabbit consumer connection error''] else []) @
                  [Go_readAllErrors (connClose s), CloseConnection (conn s)]))
       \<and> step st (ChannelCloseRecv None False) s
            = Some (s\<lparr>pc := ReconnectLoop\<rparr>,
                [Go_readAllErrors (channelClose s), CloseConsumerChannel (channel s)])
       \<and> (isNewConn s \<longrightarrow>
            step st (ConnCloseRecv None False) s
              = Some (s\<lparr>pc := ReconnectLoop\<rparr>,
                  [Go_readAllErrors (connClose s), CloseConnection (conn s)]))
       \<and> channelClose s \<noteq> None \<and> channel s \<noteq> None \<and> conn s \<noteq> None
       \<and> (isNewConn s \<longrightarrow> connClose s \<noteq> None)"
proof -
  from inv_gen_run[OF inv_gen_init assms(1)] assms(2)
  have g: "channelClose s \<noteq> None" "connClose s \<noteq> None \<longleftrightarrow> isNewConn s"
    "channel s \<noteq> None" "conn s \<noteq> None"
    by (simp_all add: inv_gen_def)
  from g(1) obtain n where n: "channelClose s = Some n" by blast
  have a: "step st (ChannelCloseRecv closeErr isOpen) s
              = Some (s\<lparr>pc := ReconnectLoop\<rparr>,
                  (if closeErr \<noteq> None then [LogError ''rabbit consumer channel error''] else []) @
                  [Go_readAllErrors (channelClose s), CloseConsumerChannel (channel s)])"
    if "receivable closeErr isOpen" for closeErr isOpen
    using that assms(2) n by (auto simp: receivable_def)
  have b: "step st (ConnCloseRecv closeErr isOpen) s
              = Some (s\<lparr>pc := ReconnectLoop\<rparr>,
                  (if closeErr \<noteq> None then [LogError ''rabbit consumer connection error''] else []) @
                  [Go_readAllErrors (connClose s), CloseConnection (conn s)])"
    if "isNewConn s \<and> receivable closeErr isOpen" for closeErr isOpen
  proof -
    from that g(2) obtain k where "connClose s = Some k" by blast
    with that assms(2) show ?thesis by (auto simp: receivable_def)
  qed
  have r: "receivable None False"
    by (simp add: receivable_def)
  from a[OF r] have c: "step st (ChannelCloseRecv None False) s
            = Some (s\<lparr>pc := ReconnectLoop\<rparr>,
                [Go_readAllErrors (channelClose s), CloseConsumerChannel (channel s)])"
    by simp
  have d: "step st (ConnCloseRecv None False) s
              = Some (s\<lparr>pc := ReconnectLoop\<rparr>,
                  [Go_readAllErrors (connClose s), CloseConnection (conn s)])"
    if "isNewConn s"
    using b[of None False] that r by simp
  from a b c d g show ?thesis by blast
qed

text \<open>
  The theorem in the state \<open>selecting\<close>: the channel's source found closed, without an
  error, and an error received from the connection's source.
\<close>

theorem close_signal_is_fault_witness:
  "receivable None False \<and> receivable (Some (Error ''EOF'')) True
   \<and> step st0 (ChannelCloseRecv None False) selecting
     = Some (selecting\<lparr>pc := ReconnectLoop\<rparr>,
         [Go_readAllErrors (Some (ChannelNotify 1)), CloseConsumerChannel (Some 4)])
   \<and> step st0 (ConnCloseRecv (Some (Error ''EOF'')) True) selecting
     = Some (selecting\<lparr>pc := ReconnectLoop\<rparr>,
         [LogError ''rabbit consumer connection error'',
          Go_readAllErrors (Some (ConnNotify 1)), CloseConnection (Some 3)])"
proof -
  have p: "pc selecting = Select" "isNewConn selecting"
    "channelClose selecting = Some (ChannelNotify 1)" "channel selecting = Some 4"
    "connClose selecting = Some (ConnNotify 1)" "conn selecting = Some 3"
    by (simp_all add: selecting_def)
  have r: "receivable None False" "receivable (Some (Error ''EOF'')) True"
    by (simp_all add: receivable_def)
  note T = close_signal_is_fault[OF run_to_select p(1)]
  from T[THEN conjunct1, THEN spec, THEN spec, THEN mp, OF r(1)]
       T[THEN conjunct2, THEN conjunct1, THEN spec, THEN spec, THEN mp,
         of "Some (Error ''EOF'')" True] p r
  show ?thesis by simp
qed

text \<open>
  The guard of lines 114 and 126 lets one pair through: a nil value from a source that
  is still open, which the broker client never sends. \<open>start\<close> would go on with the same
  generation.
\<close>

lemma nil_from_open_source_passes_the_guard:
  assumes "pc s = Select" and "channelClose s \<noteq> None"
  shows "step st (ChannelCloseRecv None True) s = Some (s\<lparr>pc := ServeLoop\<rparr>, [])"
  using assms by auto

text \<open>
  Claim C7. Let \<open>start\<close> be at the head of the reconnect loop with the closing flag not
  set. Then any sequence of failed attempts runs to its end and leaves \<open>start\<close> at the
  head of the loop again, the flag still not set, ready for the next attempt. An attempt
  in which the pool hands back no connection logs the error and sleeps one second; an
  attempt in which the channel cannot be created logs the error, closes the connection it
  had got through the pool, and then sleeps one second. The sleeps of the whole sequence
  are one second each, however long the sequence: the backoff does not grow. With the
  flag set, \<open>start\<close> leaves the loop instead of making an attempt.
\<close>

theorem acquiring_retries_with_fixed_backoff:
  assumes "pc s = ReconnectLoop"
  shows "(\<not> isClosed s \<longrightarrow>
            run st (concat (map attempt fs)) s
              = Some (fold after_attempt fs s, concat (map (attempt_actions st) fs))
          \<and> pc (fold after_attempt fs s) = ReconnectLoop
          \<and> \<not> isClosed (fold after_attempt fs s)
          \<and> sleeps (concat (map (attempt_actions st) fs)) = replicate (length fs) 1000000000)
       \<and> (isClosed s \<longrightarrow> step st TestClosed s = Some (s\<lparr>pc := Wait\<rparr>, []))
       \<and> second = 1000000000"
proof -
  have "sleeps (concat (map (attempt_actions st) fs)) = replicate (length fs) 1000000000"
    by (induction fs) (simp_all add: sleeps_append sleeps_attempt, simp add: sleeps_def)
  with run_attempts[OF assms, of st fs] fold_after_attempt_frame[of fs s] assms
  show ?thesis by (simp add: second_def)
qed

text \<open>
  Three failed attempts from the initial state: no connection, no channel, no connection.
\<close>

theorem acquiring_retries_with_fixed_backoff_witness:
  "run st0 [TestClosed, GetReturns (Inl (Error ''dial tcp: refused'')),
            TestClosed, GetReturns (Inr (3, True)),
            CreateReturns (CreateFailed None None (Error ''channel max'')) 50,
            TestClosed, GetReturns (Inl (Error ''dial tcp: refused''))] init
     = Some (init\<lparr>conn := Some 3, isNewConn := True, channel := None, deliveries := None\<rparr>,
         [LogError ''connectionsManager.Get'', Get_call (connCfg st0) ''worker'',
          LogError ''connectionsManager.Get'', Sleep 1000000000,
          LogError ''connectionsManager.Get'', Get_call (connCfg st0) ''worker'',
          LogError ''connectionsManager.CreateConsumerChannel'',
          CreateConsumerChannel_call (Some 3) ''worker'' ''orders'' 0 1,
          LogError ''CreateConsumerChannel'', CloseConnection (Some 3), Sleep 1000000000,
          LogError ''connectionsManager.Get'', Get_call (connCfg st0) ''worker'',
          LogError ''connectionsManager.Get'', Sleep 1000000000])"
proof -
  have p: "pc init = ReconnectLoop" "\<not> isClosed init"
    by (simp_all add: init_def)
  from acquiring_retries_with_fixed_backoff[OF p(1), THEN conjunct1, THEN mp, OF p(2),
      THEN conjunct1, of st0
      "[GetFails (Error ''dial tcp: refused''),
        CreateFails 3 True None None (Error ''channel max'') 50,
        GetFails (Error ''dial tcp: refused'')]"]
  show ?thesis by (simp add: st0_def)
qed

text \<open>
  Claim C9, as amended. A run of \<open>collectMetrics\<close> never ends in a panic: a panic of
  its body is recovered by the deferred function. The log is written exactly when the
  body panicked; an error returned by a broker call is dropped without a log entry. With
  a nil channel \<open>collectMetrics\<close> does nothing at all; with a closed channel, or a
  consumer configuration without metrics, it does nothing but ask the channel whether it
  is closed. On a metrics tick \<open>start\<close> only starts the goroutine and goes on with its
  loop, every variable as it was: it does not wait for the sampler and gets no result
  from it. On an open channel and with a metrics configuration, whether it has callbacks
  or not, the sampler does make the passive declare; when the declare returns an error,
  the sampler ends there and nothing is logged.
\<close>

theorem collectMetrics_isolated:
  "snd (collectMetrics env cc chn h q) = None
   \<and> (list_ex is_log (fst (collectMetrics env cc chn h q))
        \<longleftrightarrow> snd (collectMetrics_body env cc chn h q) \<noteq> None)
   \<and> (chn = None \<longrightarrow> fst (collectMetrics env cc chn h q) = [])
   \<and> (\<forall>c. chn = Some c \<and> (IsClosed_res env = Ret True
                            \<or> (IsClosed_res env = Ret False \<and> Metrics cc = None)) \<longrightarrow>
         fst (collectMetrics env cc chn h q) = [IsClosed_call c])
   \<and> (\<forall>s. pc s = Select \<longrightarrow>
         step st MetricsTick s
           = Some (s\<lparr>pc := ServeLoop\<rparr>,
               [Go_collectMetrics (channel s) (hostname st) (Queue (cfg st))]))
   \<and> (\<forall>c m. chn = Some c \<and> IsClosed_res env = Ret False \<and> Metrics cc = Some m \<longrightarrow>
         QueueDeclarePassive_call c q \<in> set (fst (collectMetrics env cc chn h q))
       \<and> (\<forall>err. QueueDeclarePassive_res env = Ret (Inl err) \<longrightarrow>
             fst (collectMetrics env cc chn h q)
               = [IsClosed_call c, QueueDeclarePassive_call c q]))"
proof -
  obtain as res where b: "collectMetrics_body env cc chn h q = (as, res)"
    by (cases "collectMetrics_body env cc chn h q")
  from collectMetrics_body_no_log[of env cc chn h q] b have n: "\<not> list_ex is_log as" by simp
  have a1: "snd (collectMetrics env cc chn h q) = None"
    by (simp add: collectMetrics_def b split: option.splits)
  have a2: "list_ex is_log (fst (collectMetrics env cc chn h q))
        \<longleftrightarrow> snd (collectMetrics_body env cc chn h q) \<noteq> None"
    using n by (cases res) (simp_all add: collectMetrics_def b)
  have a3: "fst (collectMetrics env cc chn h q) = []" if "chn = None"
    using that by (simp add: collectMetrics_def collectMetrics_body_def return_def)
  have a4: "fst (collectMetrics env cc chn h q) = [IsClosed_call c]"
    if "chn = Some c \<and> (IsClosed_res env = Ret True
                            \<or> (IsClosed_res env = Ret False \<and> Metrics cc = None))" for c
    using that
    by (auto simp: collectMetrics_def collectMetrics_body_def return_def call_Ret)
  have a5: "step st MetricsTick s
           = Some (s\<lparr>pc := ServeLoop\<rparr>,
               [Go_collectMetrics (channel s) (hostname st) (Queue (cfg st))])"
    if "pc s = Select" for s
    using that by simp
  have a6: "QueueDeclarePassive_call c q \<in> set (fst (collectMetrics env cc chn h q))
       \<and> (\<forall>err. QueueDeclarePassive_res env = Ret (Inl err) \<longrightarrow>
             fst (collectMetrics env cc chn h q)
               = [IsClosed_call c, QueueDeclarePassive_call c q])"
    if "chn = Some c \<and> IsClosed_res env = Ret False \<and> Metrics cc = Some m" for c m
    using that
    by (cases "QueueDeclarePassive_res env")
       (auto simp: collectMetrics_def collectMetrics_body_def return_def call_Ret call_Panic
          split: prod.splits option.splits)
  from a1 a2 a3 a4 a5 a6 show ?thesis by blast
qed

text \<open>
  The claim as it was stated fails. The passive declare returns an error, and nothing is
  logged; and the metrics configuration has no callback, and yet the sampler has made a
  call on the broker.
\<close>

theorem collectMetrics_silent_failure_counterexample:
  "collectMetrics env_declare_fails cc_no_callbacks (Some 4) ''mq'' ''orders''
     = ([IsClosed_call 4, QueueDeclarePassive_call 4 ''orders''], None)"
  by (simp add: collectMetrics_def collectMetrics_body_def call_def return_def
        env_declare_fails_def cc_no_callbacks_def)

text \<open>
  A queue-length callback that panics: the panic is logged and does not leave
  \<open>collectMetrics\<close>. A nil channel: nothing is done. The tick in the state \<open>selecting\<close>.
\<close>

theorem collectMetrics_isolated_witness:
  "collectMetrics env_callback_panics cc_delay (Some 4) ''mq'' ''orders''
     = ([IsClosed_call 4, QueueDeclarePassive_call 4 ''orders'',
         QueueLength_call ''mq'' ''orders'' 3,
         LogError ''unable to collect rabbit metrics''], None)
   \<and> fst (collectMetrics env_three cc_delay None ''mq'' ''orders'') = []
   \<and> step st0 MetricsTick selecting
        = Some (selecting\<lparr>pc := ServeLoop\<rparr>, [Go_collectMetrics (Some 4) ''mq'' ''orders''])"
proof -
  have b: "collectMetrics_body env_callback_panics cc_delay (Some 4) ''mq'' ''orders''
     = ([IsClosed_call 4, QueueDeclarePassive_call 4 ''orders'',
         QueueLength_call ''mq'' ''orders'' 3], Some ''nil map'')"
    by (simp add: collectMetrics_body_def call_def return_def env_callback_panics_def
          cc_delay_def)
  have p: "pc selecting = Select" "channel selecting = Some 4"
    "hostname st0 = ''mq''" "Queue (cfg st0) = ''orders''"
    by (simp_all add: selecting_def st0_def)
  note T = collectMetrics_isolated[of env_callback_panics cc_delay "Some 4" "''mq''" "''orders''" st0]
  note U = collectMetrics_isolated[of env_three cc_delay None "''mq''" "''orders''" st0]
  from T have e: "snd (collectMetrics env_callback_panics cc_delay (Some 4) ''mq'' ''orders'') = None"
    by (rule conjunct1)
  have f: "fst (collectMetrics env_callback_panics cc_delay (Some 4) ''mq'' ''orders'')
     = [IsClosed_call 4, QueueDeclarePassive_call 4 ''orders'',
         QueueLength_call ''mq'' ''orders'' 3, LogError ''unable to collect rabbit metrics'']"
    by (simp add: collectMetrics_def b)
  from e f have one: "collectMetrics env_callback_panics cc_delay (Some 4) ''mq'' ''orders''
     = ([IsClosed_call 4, QueueDeclarePassive_call 4 ''orders'',
         QueueLength_call ''mq'' ''orders'' 3,
         LogError ''unable to collect rabbit metrics''], None)"
    by (simp add: prod_eq_iff)
  from U[THEN conjunct2, THEN conjunct2, THEN conjunct1]
  have two: "fst (collectMetrics env_three cc_delay None ''mq'' ''orders'') = []" by simp
  from T[THEN conjunct2, THEN conjunct2, THEN conjunct2, THEN conjunct2, THEN conjunct1,
         THEN spec, THEN mp, OF p(1)]
  have three: "step st0 MetricsTick selecting
        = Some (selecting\<lparr>pc := ServeLoop\<rparr>, [Go_collectMetrics (Some 4) ''mq'' ''orders''])"
    unfolding p(2,3,4) .
  from one two three show ?thesis by blast
qed

end
